theory Spec2Isabelle
  imports
    Complex_Main
    "HOL-Library.Sublist"
    "HOL-Library.AList"
    "HOL-Library.Char_ord"
    "HOL-Library.List_Lexorder"
    "HOL-Library.Product_Lexorder"
    "HOL-Library.Multiset"
begin

section \<open>Python strings and pathlib paths\<close>

text \<open>
  Strings are \<^typ>\<open>string\<close> (lists of 8-bit characters), so the development speaks about
  names made of single-byte characters. A concrete \<open>Path\<close> is the list of its parts. The
  platform is POSIX (\<open>Path\<close> is \<open>PosixPath\<close>), the separator is \<open>/\<close>.
\<close>

type_synonym path = "string list"

definition BACKSLASH :: char where
  "BACKSLASH = CHR 0x5C"

definition NUL :: char where
  "NUL = CHR 0x00"

text \<open>\<open>s.replace("\\", "/")\<close>\<close>

definition replace_backslash :: "string \<Rightarrow> string" where
  "replace_backslash s = map (\<lambda>c. if c = BACKSLASH then CHR ''/'' else c) s"

text \<open>\<open>s.split(sep)\<close> for a one-character separator: \<open>"a//b"\<close> gives \<open>["a", "", "b"]\<close>.\<close>

fun split_sep :: "char \<Rightarrow> string \<Rightarrow> string list" where
  "split_sep sep [] = [[]]"
| "split_sep sep (c # cs) =
     (if c = sep then [] # split_sep sep cs
      else (case split_sep sep cs of [] \<Rightarrow> [[c]] | w # ws \<Rightarrow> (c # w) # ws))"

text \<open>\<open>"/".join(parts)\<close>, which is \<open>str(path)\<close> for a relative path with at least one part.\<close>

fun join_sep :: "string list \<Rightarrow> string" where
  "join_sep [] = []"
| "join_sep [s] = s"
| "join_sep (s # t # ss) = s @ ''/'' @ join_sep (t # ss)"

text \<open>
  \<open>PurePosixPath(s)\<close> as pathlib parses it: the root is \<open>/\<close> when the string starts with a
  slash (\<open>//\<close> when it starts with exactly two), and the remainder is split at \<open>/\<close> with
  every empty and every \<open>.\<close> component left out. This is the library's normalisation:
  \<open>PurePosixPath("a//b/./c/").parts\<close> is \<open>("a", "b", "c")\<close>.
\<close>

record pure_path =
  path_root :: string
  path_segs :: "string list"

definition posix_path :: "string \<Rightarrow> pure_path" where
  "posix_path s =
     (let r = (if prefix ''/'' s
               then (if prefix ''//'' s \<and> \<not> prefix ''///'' s then ''//'' else ''/'')
               else []);
          rel = dropWhile (\<lambda>c. c = CHR ''/'') s
      in \<lparr> path_root = r,
           path_segs = filter (\<lambda>x. x \<noteq> [] \<and> x \<noteq> ''.'') (split_sep (CHR ''/'') rel) \<rparr>)"

definition is_absolute :: "pure_path \<Rightarrow> bool" where
  "is_absolute p = (path_root p \<noteq> [])"

definition parts :: "pure_path \<Rightarrow> string list" where
  "parts p = (if path_root p = [] then path_segs p else path_root p # path_segs p)"

text \<open>\<open>Path.name\<close> of a concrete relative path: its last part, or the empty string.\<close>

definition path_name :: "path \<Rightarrow> string" where
  "path_name p = (if p = [] then [] else last p)"

text \<open>\<open>Path.parent\<close> of a relative path with at least one part.\<close>

definition path_parent :: "path \<Rightarrow> path" where
  "path_parent p = butlast p"

text \<open>
  \<open>Path.parents\<close> of a canonical absolute path, written as the list of its components
  below \<open>/\<close>: every proper prefix, the nearest first, \<open>/\<close> itself (the empty list) last.
\<close>

definition path_parents :: "path \<Rightarrow> path list" where
  "path_parents p = map (\<lambda>n. take n p) (rev [0..<length p])"

section \<open>Errors\<close>

text \<open>
  Every \<open>raise\<close> of the source is a value. A \<open>ValueError\<close> keeps the message's template and
  its argument apart (the source formats them with f-strings); \<open>str(e)\<close> is the value
  itself.
\<close>

datatype value_error =
    Empty_field string
  | Invalid_field string
  | Not_single_segment string
  | Empty_filename
  | Absolute_paths_not_allowed string
  | Invalid_path string
  | Embedded_null_byte

datatype os_error = FileExistsError | NotADirectoryError | IsADirectoryError | FileNotFoundError

datatype py_exception = ValueError value_error | OSError os_error

datatype detail = Text string | Str_of value_error

text \<open>
  What a request ends with when it does not return: an \<open>HTTPException\<close> the handler raised,
  an exception no handler caught (the framework answers 500), or the framework's refusal
  of a query parameter outside its declared range (named by the parameter).
\<close>

datatype failure = HTTPException nat detail | Uncaught os_error | Request_validation_error string

section \<open>storage.py\<close>

definition startswith :: "string \<Rightarrow> string \<Rightarrow> bool" where
  "startswith s pre = prefix pre s"

definition is_hidden_or_metadata_path :: "path \<Rightarrow> bool" where
  "is_hidden_or_metadata_path p =
     (let ps = filter (\<lambda>q. q \<noteq> []) p in
      if list_ex (\<lambda>part. startswith part ''.'') ps then True
      else let base = path_name p in
        if base = ''.DS_Store'' \<or> base = ''Thumbs.db'' then True
        else if startswith base ''._'' then True
        else False)"

definition safe_segment :: "string \<Rightarrow> string \<Rightarrow> value_error + string" where
  "safe_segment v field_name =
     (if v = [] then Inl (Empty_field field_name)
      else if NUL \<in> set v then Inl (Invalid_field field_name)
      else if CHR ''/'' \<in> set v \<or> BACKSLASH \<in> set v then Inl (Not_single_segment field_name)
      else if v = ''.'' \<or> v = ''..'' then Inl (Invalid_field field_name)
      else Inr v)"

text \<open>\<open>storage._safe_relpath\<close>\<close>

definition storage_safe_relpath :: "string \<Rightarrow> value_error + path" where
  "storage_safe_relpath filename =
     (if filename = [] then Inl Empty_filename
      else let normalized = replace_backslash filename;
               p = posix_path normalized
           in if is_absolute p then Inl (Absolute_paths_not_allowed filename)
              else if list_ex (\<lambda>part. part = ''..'' \<or> part = []) (parts p)
                   then Inl (Invalid_path filename)
              else Inr (parts p))"

section \<open>browse.py: path resolution\<close>

text \<open>\<open>browse._safe_relpath\<close>\<close>

definition browse_safe_relpath :: "string \<Rightarrow> failure + path" where
  "browse_safe_relpath rel =
     (if rel = [] then Inl (HTTPException 400 (Text ''path is required''))
      else let rel_norm = replace_backslash rel;
               p = posix_path rel_norm
           in if is_absolute p then Inl (HTTPException 400 (Text ''Absolute paths not allowed''))
              else if ''..'' \<in> set (parts p) then Inl (HTTPException 400 (Text ''Invalid path''))
              else Inr (parts p))"

text \<open>
  \<open>_safe_join_dataset\<close>. \<open>Path.resolve()\<close> is the operating system's canonicalisation
  (symbolic links followed, the result absolute); it is a parameter, so what is proved
  holds for every file system, links included. A resolved path is the list of its
  components below \<open>/\<close>.
\<close>

definition safe_join_dataset :: "(path \<Rightarrow> path) \<Rightarrow> path \<Rightarrow> string \<Rightarrow> failure + path" where
  "safe_join_dataset resolve root_dir rel =
     (let root_resolved = resolve root_dir
      in case browse_safe_relpath rel of
           Inl e \<Rightarrow> Inl e
         | Inr r \<Rightarrow>
             (let full = resolve (root_dir @ r)
              in if full \<noteq> root_resolved \<and> root_resolved \<notin> set (path_parents full)
                 then Inl (HTTPException 400 (Text ''Path escapes dataset root''))
                 else Inr full))"

section \<open>The file system\<close>

text \<open>
  The disk is the tree below the process's working directory: a regular file with its
  bytes, or a directory with its entries in the order the operating system lists them
  (\<open>iterdir\<close>, \<open>rglob\<close>). There are no symbolic links and no permissions in this tree, and
  every operation that succeeds on it is one the operating system would perform; paths
  are relative to the working directory, as \<open>BASE_PATH\<close> is. A new entry is listed last in
  its directory; the order is the operating system's to choose, and nothing proved below
  depends on it.
\<close>

datatype fsnode = FsFile string | FsDir "(string \<times> fsnode) list"

fun fs_lookup :: "fsnode \<Rightarrow> path \<Rightarrow> fsnode option" where
  "fs_lookup n [] = Some n"
| "fs_lookup n (s # ss) =
     (case n of
        FsFile _ \<Rightarrow> None
      | FsDir es \<Rightarrow> (case map_of es s of None \<Rightarrow> None | Some c \<Rightarrow> fs_lookup c ss))"

definition is_dir :: "fsnode \<Rightarrow> bool" where
  "is_dir n = (case n of FsDir _ \<Rightarrow> True | FsFile _ \<Rightarrow> False)"

definition is_file :: "fsnode \<Rightarrow> bool" where
  "is_file n = (case n of FsFile _ \<Rightarrow> True | FsDir _ \<Rightarrow> False)"

text \<open>\<open>stat().st_size\<close>; only ever read on regular files.\<close>

definition st_size :: "fsnode \<Rightarrow> nat" where
  "st_size n = (case n of FsFile b \<Rightarrow> length b | FsDir _ \<Rightarrow> 0)"

text \<open>
  \<open>Path.mkdir(parents=True, exist_ok=True)\<close>: every missing directory of the path is
  created; an existing directory is left as it is; a regular file in the way raises
  (\<open>FileExistsError\<close> at the last component, \<open>NotADirectoryError\<close> before it), and then
  nothing has been created.
\<close>

fun mkdir_p :: "fsnode \<Rightarrow> path \<Rightarrow> os_error + fsnode" where
  "mkdir_p n [] = (case n of FsDir _ \<Rightarrow> Inr n | FsFile _ \<Rightarrow> Inl FileExistsError)"
| "mkdir_p n (s # ss) =
     (case n of
        FsFile _ \<Rightarrow> Inl NotADirectoryError
      | FsDir es \<Rightarrow>
          (case mkdir_p (case map_of es s of None \<Rightarrow> FsDir [] | Some c \<Rightarrow> c) ss of
             Inl e \<Rightarrow> Inl e
           | Inr c' \<Rightarrow> Inr (FsDir (AList.update s c' es))))"

text \<open>
  \<open>open(dest, "wb")\<close> followed by \<open>write\<close>: the file is created or replaced; the parent
  must be an existing directory and the target must not be a directory.
\<close>

fun write_file :: "fsnode \<Rightarrow> path \<Rightarrow> string \<Rightarrow> os_error + fsnode" where
  "write_file n [] b = (case n of FsDir _ \<Rightarrow> Inl IsADirectoryError | FsFile _ \<Rightarrow> Inr (FsFile b))"
| "write_file n (s # ss) b =
     (case n of
        FsFile _ \<Rightarrow> Inl NotADirectoryError
      | FsDir es \<Rightarrow>
          (case map_of es s of
             None \<Rightarrow> (if ss = [] then Inr (FsDir (AList.update s (FsFile b) es))
                      else Inl FileNotFoundError)
           | Some c \<Rightarrow>
               (case write_file c ss b of
                  Inl e \<Rightarrow> Inl e
                | Inr c' \<Rightarrow> Inr (FsDir (AList.update s c' es)))))"

text \<open>
  The system calls refuse a path with an embedded null byte with a \<open>ValueError\<close> before
  they touch the disk.
\<close>

definition has_nul :: "path \<Rightarrow> bool" where
  "has_nul p = list_ex (\<lambda>s. NUL \<in> set s) p"

definition py_mkdir :: "fsnode \<Rightarrow> path \<Rightarrow> py_exception + fsnode" where
  "py_mkdir fs p =
     (if has_nul p then Inl (ValueError Embedded_null_byte)
      else (case mkdir_p fs p of Inl e \<Rightarrow> Inl (OSError e) | Inr fs' \<Rightarrow> Inr fs'))"

definition py_open_write :: "fsnode \<Rightarrow> path \<Rightarrow> string \<Rightarrow> py_exception + fsnode" where
  "py_open_write fs p b =
     (if has_nul p then Inl (ValueError Embedded_null_byte)
      else (case write_file fs p b of Inl e \<Rightarrow> Inl (OSError e) | Inr fs' \<Rightarrow> Inr fs'))"

text \<open>
  \<open>root.rglob("*")\<close>: every entry below a directory, at any depth, with its path relative
  to that directory (\<open>relative_to(root)\<close>). pathlib's \<open>*\<close> also matches names that start
  with a dot.
\<close>

fun rglob :: "fsnode \<Rightarrow> (path \<times> fsnode) list" where
  "rglob (FsFile b) = []"
| "rglob (FsDir es) =
     concat (map (\<lambda>e. ([fst e], snd e) # map (\<lambda>q. (fst e # fst q, snd q)) (rglob (snd e))) es)"

definition rglob_at :: "fsnode \<Rightarrow> path \<Rightarrow> (path \<times> fsnode) list" where
  "rglob_at fs p = (case fs_lookup fs p of None \<Rightarrow> [] | Some n \<Rightarrow> rglob n)"

section \<open>storage.py: saving an upload\<close>

definition BASE_PATH :: path where
  "BASE_PATH = [''data'', ''raw'']"

text \<open>An \<open>UploadFile\<close>: its \<open>filename\<close> and the bytes \<open>file.read()\<close> returns.\<close>

record upload_file =
  uf_filename :: string
  uf_bytes :: string

text \<open>The loop of \<open>save_files\<close>; the disk is threaded through, so a failure keeps what was
  written before it.\<close>

fun save_loop :: "path \<Rightarrow> fsnode \<Rightarrow> upload_file list \<Rightarrow> (py_exception + unit) \<times> fsnode" where
  "save_loop root_dir fs [] = (Inr (), fs)"
| "save_loop root_dir fs (f # fs_rest) =
     (case storage_safe_relpath (uf_filename f) of
        Inl e \<Rightarrow> (Inl (ValueError e), fs)
      | Inr rel \<Rightarrow>
          if is_hidden_or_metadata_path rel then save_loop root_dir fs fs_rest
          else (let dest = root_dir @ rel
                in case py_mkdir fs (path_parent dest) of
                     Inl e \<Rightarrow> (Inl e, fs)
                   | Inr fs1 \<Rightarrow>
                       (case py_open_write fs1 dest (uf_bytes f) of
                          Inl e \<Rightarrow> (Inl e, fs1)
                        | Inr fs2 \<Rightarrow> save_loop root_dir fs2 fs_rest)))"

definition save_files ::
  "fsnode \<Rightarrow> string \<Rightarrow> string \<Rightarrow> upload_file list \<Rightarrow> (py_exception + path) \<times> fsnode" where
  "save_files fs partner_id dataset_name files =
     (case safe_segment partner_id ''partner_id'' of
        Inl e \<Rightarrow> (Inl (ValueError e), fs)
      | Inr pid \<Rightarrow>
          (case safe_segment dataset_name ''dataset_name'' of
             Inl e \<Rightarrow> (Inl (ValueError e), fs)
           | Inr dn \<Rightarrow>
               (let root_dir = BASE_PATH @ [pid, dn]
                in case py_mkdir fs root_dir of
                     Inl e \<Rightarrow> (Inl e, fs)
                   | Inr fs1 \<Rightarrow>
                       (case save_loop root_dir fs1 files of
                          (Inl e, fs2) \<Rightarrow> (Inl e, fs2)
                        | (Inr u, fs2) \<Rightarrow> (Inr root_dir, fs2)))))"

section \<open>models.py and upload.py\<close>

record Dataset =
  ds_id :: string
  ds_partner_id :: string
  ds_name :: string
  ds_type :: string
  ds_path :: string
  ds_file_count :: nat
  ds_total_size_bytes :: nat
  ds_uploaded_at :: nat

text \<open>What a request reads and changes: the disk and the \<open>datasets\<close> table.\<close>

record world =
  disk :: fsnode
  db :: "Dataset list"

text \<open>
  \<open>upload\<close>. The fresh \<open>uuid4\<close> and the clock reading \<open>utcnow\<close> that stamps the row are
  inputs. The answer \<open>{"dataset_id": dataset_id}\<close> is the id.
\<close>

definition upload ::
  "world \<Rightarrow> string \<Rightarrow> nat \<Rightarrow> string \<Rightarrow> string \<Rightarrow> upload_file list \<Rightarrow> (failure + string) \<times> world" where
  "upload w dataset_id now partner_id dataset_name files =
     (case save_files (disk w) partner_id dataset_name files of
        (Inl (ValueError e), fs') \<Rightarrow> (Inl (HTTPException 400 (Str_of e)), w\<lparr>disk := fs'\<rparr>)
      | (Inl (OSError e), fs') \<Rightarrow> (Inl (Uncaught e), w\<lparr>disk := fs'\<rparr>)
      | (Inr p, fs') \<Rightarrow>
          (let all_files = filter (\<lambda>f. is_file (snd f) \<and> \<not> is_hidden_or_metadata_path (fst f))
                             (rglob_at fs' p);
               file_count = length all_files;
               total_size = sum_list (map (\<lambda>f. st_size (snd f)) all_files)
           in if file_count = 0
              then (Inl (HTTPException 400
                      (Text ''No uploadable files found (hidden/metadata files were skipped)'')),
                    w\<lparr>disk := fs'\<rparr>)
              else (Inr dataset_id,
                    \<lparr>disk = fs',
                     db = db w @ [\<lparr>ds_id = dataset_id, ds_partner_id = partner_id,
                                  ds_name = dataset_name, ds_type = ''mixed'',
                                  ds_path = join_sep p, ds_file_count = file_count,
                                  ds_total_size_bytes = total_size,
                                  ds_uploaded_at = now\<rparr>]\<rparr>)))"

section \<open>browse.py: dataset lookup\<close>

text \<open>
  \<open>_get_dataset_by_partner_and_name_or_404\<close>: the matching rows ordered by
  \<open>uploaded_at\<close>, latest first; the first one, or 404. Among rows of the same time the
  database may return any; here it is the one inserted last.
\<close>

definition get_dataset_by_partner_and_name_or_404 ::
  "Dataset list \<Rightarrow> string \<Rightarrow> string \<Rightarrow> failure + Dataset" where
  "get_dataset_by_partner_and_name_or_404 rows partner_id dataset_name =
     (case rev (sort_key ds_uploaded_at
                  (filter (\<lambda>d. ds_partner_id d = partner_id \<and> ds_name d = dataset_name) rows)) of
        [] \<Rightarrow> Inl (HTTPException 404 (Text ''Dataset not found for partner_id + dataset_name''))
      | d # ds \<Rightarrow> Inr d)"

text \<open>\<open>Path(d.path)\<close>: the stored string parsed again.\<close>

definition Path :: "string \<Rightarrow> path" where
  "Path s = parts (posix_path s)"

section \<open>browse.py: the directory tree\<close>

text \<open>\<open>str.lower()\<close> on single-byte names: the letters \<open>A\<close> to \<open>Z\<close> are mapped to \<open>a\<close> to \<open>z\<close>.\<close>

definition lower_char :: "char \<Rightarrow> char" where
  "lower_char c = (if CHR ''A'' \<le> c \<and> c \<le> CHR ''Z'' then char_of (of_char c + (32::nat)) else c)"

definition lower :: "string \<Rightarrow> string" where
  "lower s = map lower_char s"

text \<open>The tree's nodes: \<open>{"type": "directory", name, path, children}\<close> and
  \<open>{"type": "file", name, path, size_bytes}\<close>.\<close>

datatype tree_node =
    Directory string string "tree_node list"
  | File string string nat

text \<open>The two \<open>nonlocal\<close> variables of \<open>dataset_tree\<close>.\<close>

record walk_state =
  truncated :: bool
  entries_seen :: nat

text \<open>\<open>_rel\<close>, for a path given by its parts below the dataset root.\<close>

definition rel_str :: "path \<Rightarrow> string" where
  "rel_str p = (if p = [] then [] else join_sep p)"

text \<open>The sort key of \<open>sorted(dir_path.iterdir(), key=...)\<close>; Python compares the pairs
  lexicographically, \<open>False\<close> before \<open>True\<close>, strings by code point, and the sort is
  stable.\<close>

definition child_key :: "string \<times> fsnode \<Rightarrow> bool \<times> string" where
  "child_key e = (\<not> is_dir (snd e), lower (fst e))"

lemma size_list_sort_key: "size_list f (sort_key k xs) = size_list f xs"
proof -
  have "sum_mset (image_mset f (mset (sort_key k xs))) = sum_mset (image_mset f (mset xs))"
    by simp
  then have "sum_list (map f (sort_key k xs)) = sum_list (map f xs)"
    by (metis mset_map sum_mset_sum_list)
  then show ?thesis
    by (simp add: size_list_conv_sum_list)
qed

text \<open>
  \<open>_build_dir_node\<close> and its \<open>for child in children\<close> loop. \<open>max_depth\<close> and \<open>max_entries\<close>
  are the closure's variables; \<open>dir_path\<close> is given by its parts below the dataset root
  (the root is the empty list) together with the directory's entries on disk; the loop
  carries the children appended so far.
\<close>

function build_dir_node ::
    "nat \<Rightarrow> nat \<Rightarrow> path \<Rightarrow> (string \<times> fsnode) list \<Rightarrow> nat \<Rightarrow> walk_state \<Rightarrow> tree_node \<times> walk_state"
  and build_children ::
    "nat \<Rightarrow> nat \<Rightarrow> path \<Rightarrow> (string \<times> fsnode) list \<Rightarrow> nat \<Rightarrow> tree_node list \<Rightarrow> walk_state
       \<Rightarrow> tree_node list \<times> walk_state"
where
  "build_dir_node max_depth max_entries dir_path entries depth st =
     (if depth \<ge> max_depth \<or> truncated st
      then (Directory (if dir_path \<noteq> [] then path_name dir_path else []) (rel_str dir_path) [], st)
      else (case build_children max_depth max_entries dir_path (sort_key child_key entries) depth [] st of
              (cs, st') \<Rightarrow>
                (Directory (if dir_path \<noteq> [] then path_name dir_path else []) (rel_str dir_path) cs,
                 st')))"
| "build_children max_depth max_entries dir_path [] depth acc st = (acc, st)"
| "build_children max_depth max_entries dir_path (child # siblings) depth acc st =
     (let rel_child = dir_path @ [fst child]
      in if is_hidden_or_metadata_path rel_child
         then build_children max_depth max_entries dir_path siblings depth acc st
         else if entries_seen st \<ge> max_entries then (acc, st\<lparr>truncated := True\<rparr>)
         else (case snd child of
                 FsDir es \<Rightarrow>
                   (case build_dir_node max_depth max_entries rel_child es (depth + 1)
                           (st\<lparr>entries_seen := entries_seen st + 1\<rparr>) of
                      (node, st') \<Rightarrow>
                        build_children max_depth max_entries dir_path siblings depth (acc @ [node]) st')
               | FsFile b \<Rightarrow>
                   build_children max_depth max_entries dir_path siblings depth
                     (acc @ [File (fst child) (join_sep rel_child) (length b)])
                     (st\<lparr>entries_seen := entries_seen st + 1\<rparr>)))"
  by pat_completeness auto
termination
  by (relation "measure (\<lambda>x. case x of
          Inl (md, me, p, es, d, st) \<Rightarrow> 2 * size_list (size_prod (\<lambda>a. 0) size) es + 1
        | Inr (md, me, p, cs, d, acc, st) \<Rightarrow> 2 * size_list (size_prod (\<lambda>a. 0) size) cs)")
     (auto simp: size_list_sort_key)

text \<open>The answer of \<open>GET /datasets/tree\<close>.\<close>

record tree_response =
  tr_partner_id :: string
  tr_dataset_name :: string
  tr_dataset_id :: string
  tr_root_path :: string
  tr_max_depth :: nat
  tr_max_entries :: nat
  tr_entries_returned :: nat
  tr_truncated :: bool
  tr_tree :: tree_node

text \<open>
  \<open>dataset_tree\<close>. The handler fixes \<open>path = ""\<close>, \<open>max_depth = 5\<close> and
  \<open>max_entries = 2000\<close>, so \<open>start\<close> is the dataset root.
\<close>

definition dataset_tree :: "world \<Rightarrow> string \<Rightarrow> string \<Rightarrow> failure + tree_response" where
  "dataset_tree w partner_id dataset_name =
     (let max_depth = 5; max_entries = 2000
      in case get_dataset_by_partner_and_name_or_404 (db w) partner_id dataset_name of
           Inl e \<Rightarrow> Inl e
         | Inr d \<Rightarrow>
             (case fs_lookup (disk w) (Path (ds_path d)) of
                None \<Rightarrow> Inl (HTTPException 404 (Text ''Dataset path missing on disk''))
              | Some (FsFile b) \<Rightarrow> Inl (HTTPException 400 (Text ''Path must be a directory''))
              | Some (FsDir es) \<Rightarrow>
                  (case build_dir_node max_depth max_entries [] es 0
                          \<lparr>truncated = False, entries_seen = 0\<rparr> of
                     (tree, st) \<Rightarrow>
                       Inr \<lparr>tr_partner_id = partner_id, tr_dataset_name = dataset_name,
                            tr_dataset_id = ds_id d, tr_root_path = rel_str [],
                            tr_max_depth = max_depth, tr_max_entries = max_entries,
                            tr_entries_returned = entries_seen st, tr_truncated = truncated st,
                            tr_tree = tree\<rparr>)))"

section \<open>browse.py: previews\<close>

text \<open>
  What lies outside the program is a parameter: the child process that decodes a parquet
  file (\<open>subprocess.run\<close> with \<open>timeout=20\<close>, by the file's path and the row count),
  \<open>json.loads\<close>, whether Pillow can be imported, and \<open>Image.open\<close> (by the file's path;
  \<open>None\<close> when it raises). Nothing is assumed about them.
\<close>

datatype json =
    JObject "(string \<times> json) list"
  | JArray "json list"
  | JString string
  | JNumber string
  | JBool bool
  | JNull

datatype completed_process = Timed_out | Completed int string string

record pil_image =
  img_width :: nat
  img_height :: nat
  img_mode :: string
  img_transparency :: bool

record env =
  subprocess_run :: "path \<Rightarrow> int \<Rightarrow> completed_process"
  json_loads :: "string \<Rightarrow> json option"
  pillow_installed :: bool
  image_open :: "path \<Rightarrow> pil_image option"

text \<open>The exceptions the two \<open>except Exception\<close> clauses of \<open>preview_dataset\<close> catch.\<close>

datatype decode_exception =
    TimeoutExpired
  | RuntimeError_stderr string
  | RuntimeError_exit int
  | JSONDecodeError
  | AttributeError
  | Image_open_error

text \<open>\<open>str.strip()\<close>: the whitespace of single-byte strings.\<close>

definition is_space :: "char \<Rightarrow> bool" where
  "is_space c = (let k = (of_char c :: nat) in (9 \<le> k \<and> k \<le> 13) \<or> (28 \<le> k \<and> k \<le> 32))"

definition strip :: "string \<Rightarrow> string" where
  "strip s = rev (dropWhile is_space (rev (dropWhile is_space s)))"

text \<open>\<open>_parquet_preview_subprocess\<close>\<close>

definition parquet_preview_subprocess :: "env \<Rightarrow> path \<Rightarrow> int \<Rightarrow> decode_exception + json" where
  "parquet_preview_subprocess ev parquet_path n =
     (case subprocess_run ev parquet_path n of
        Timed_out \<Rightarrow> Inl TimeoutExpired
      | Completed returncode stdout stderr \<Rightarrow>
          if returncode \<noteq> 0
          then (let err = strip stderr
                in if err \<noteq> [] then Inl (RuntimeError_stderr err)
                   else Inl (RuntimeError_exit returncode))
          else (let out = strip stdout
                in if out = []
                   then Inr (JObject [(''rows'', JArray []), (''columns'', JArray []),
                                      (''returned'', JNumber ''0'')])
                   else (case json_loads ev out of
                           None \<Rightarrow> Inl JSONDecodeError
                         | Some j \<Rightarrow> Inr j)))"

text \<open>\<open>preview.get(key, default)\<close>: an \<open>AttributeError\<close> unless the decoded value is a dict.\<close>

definition json_get :: "json \<Rightarrow> string \<Rightarrow> json \<Rightarrow> decode_exception + json" where
  "json_get j k dflt =
     (case j of
        JObject kvs \<Rightarrow> Inr (case map_of kvs k of None \<Rightarrow> dflt | Some v \<Rightarrow> v)
      | JArray xs \<Rightarrow> Inl AttributeError
      | JString x \<Rightarrow> Inl AttributeError
      | JNumber x \<Rightarrow> Inl AttributeError
      | JBool x \<Rightarrow> Inl AttributeError
      | JNull \<Rightarrow> Inl AttributeError)"

record parquet_entry =
  pq_path :: string
  pq_rows :: json
  pq_returned :: json
  pq_columns :: json

record image_entry =
  im_path :: string
  im_width :: nat
  im_height :: nat
  im_thumbnail_url :: string

record error_entry =
  er_type :: string
  er_path :: string
  er_error :: decode_exception

text \<open>The body of the \<open>try\<close> for one parquet file.\<close>

definition parquet_entry_of :: "env \<Rightarrow> path \<Rightarrow> path \<Rightarrow> int \<Rightarrow> decode_exception + parquet_entry" where
  "parquet_entry_of ev root_dir f parquet_rows =
     (case parquet_preview_subprocess ev (root_dir @ f) parquet_rows of
        Inl e \<Rightarrow> Inl e
      | Inr preview \<Rightarrow>
          (case json_get preview ''rows'' (JArray []) of
             Inl e \<Rightarrow> Inl e
           | Inr rows \<Rightarrow>
               (case json_get preview ''returned'' (JNumber ''0'') of
                  Inl e \<Rightarrow> Inl e
                | Inr returned \<Rightarrow>
                    (case json_get preview ''columns'' (JArray []) of
                       Inl e \<Rightarrow> Inl e
                     | Inr columns \<Rightarrow>
                         Inr \<lparr>pq_path = join_sep f, pq_rows = rows, pq_returned = returned,
                              pq_columns = columns\<rparr>))))"

text \<open>\<open>for f in parquet_files\<close>; \<open>f\<close> is the file's path below the dataset root.\<close>

fun parquet_loop ::
  "env \<Rightarrow> path \<Rightarrow> int \<Rightarrow> path list \<Rightarrow> parquet_entry list \<Rightarrow> error_entry list
     \<Rightarrow> parquet_entry list \<times> error_entry list" where
  "parquet_loop ev root_dir parquet_rows [] parquet_previews errors = (parquet_previews, errors)"
| "parquet_loop ev root_dir parquet_rows (f # fs) parquet_previews errors =
     (case parquet_entry_of ev root_dir f parquet_rows of
        Inr entry \<Rightarrow> parquet_loop ev root_dir parquet_rows fs (parquet_previews @ [entry]) errors
      | Inl e \<Rightarrow>
          parquet_loop ev root_dir parquet_rows fs parquet_previews
            (errors @ [\<lparr>er_type = ''parquet'', er_path = join_sep f, er_error = e\<rparr>]))"

text \<open>\<open>for f in image_files\<close>\<close>

fun image_loop ::
  "env \<Rightarrow> path \<Rightarrow> string \<Rightarrow> string \<Rightarrow> path list \<Rightarrow> image_entry list \<Rightarrow> error_entry list
     \<Rightarrow> image_entry list \<times> error_entry list" where
  "image_loop ev root_dir partner_id dataset_name [] image_previews errors = (image_previews, errors)"
| "image_loop ev root_dir partner_id dataset_name (f # fs) image_previews errors =
     (case image_open ev (root_dir @ f) of
        Some img \<Rightarrow>
          image_loop ev root_dir partner_id dataset_name fs
            (image_previews @
               [\<lparr>im_path = join_sep f, im_width = img_width img, im_height = img_height img,
                 im_thumbnail_url = ''/thumbnail?partner_id='' @ partner_id @ ''&dataset_name='' @
                                    dataset_name @ ''&path='' @ join_sep f\<rparr>])
            errors
      | None \<Rightarrow>
          image_loop ev root_dir partner_id dataset_name fs image_previews
            (errors @ [\<lparr>er_type = ''image'', er_path = join_sep f, er_error = Image_open_error\<rparr>]))"

text \<open>\<open>rglob("*.parquet")\<close> matches the entries whose name ends in \<open>.parquet\<close>.\<close>

definition endswith :: "string \<Rightarrow> string \<Rightarrow> bool" where
  "endswith s suf = suffix suf s"

text \<open>\<open>PurePath.suffix\<close>: the name from its last dot on, unless that dot is the first or
  the last character.\<close>

definition path_suffix :: "path \<Rightarrow> string" where
  "path_suffix p =
     (let name = path_name p;
          after = takeWhile (\<lambda>c. c \<noteq> CHR ''.'') (rev name)
      in if CHR ''.'' \<in> set name \<and> Suc (length after) < length name \<and> after \<noteq> []
         then CHR ''.'' # rev after
         else [])"

definition image_exts :: "string list" where
  "image_exts = [''.png'', ''.jpg'', ''.jpeg'', ''.gif'', ''.webp'', ''.bmp'', ''.tif'', ''.tiff'',
                 ''.heic'']"

text \<open>The two file selections. \<open>sorted\<close> compares paths part by part; the paths found share
  the root's parts, so their order is that of their parts below the root.\<close>

definition parquet_files_of :: "fsnode \<Rightarrow> path list" where
  "parquet_files_of root_node =
     take 25 (sort (map fst (filter (\<lambda>e. endswith (path_name (fst e)) ''.parquet'')
                                    (rglob root_node))))"

definition image_files_of :: "fsnode \<Rightarrow> path list" where
  "image_files_of root_node =
     take 50 (sort (map fst (filter (\<lambda>e. is_file (snd e) \<and>
                                           lower (path_suffix (fst e)) \<in> set image_exts)
                                    (rglob root_node))))"

record preview_response =
  pv_partner_id :: string
  pv_dataset_name :: string
  pv_dataset_id :: string
  pv_parquet_count :: nat
  pv_parquet_previews :: "parquet_entry list"
  pv_images_count :: nat
  pv_image_previews :: "image_entry list"
  pv_errors :: "error_entry list"

text \<open>
  \<open>preview_dataset\<close>. \<open>parquet_rows\<close> is declared \<open>Query(5, ge=1, le=200)\<close>: absent it is 5,
  and the framework refuses a value outside 1..200 before the handler runs.
\<close>

definition preview_dataset ::
  "env \<Rightarrow> world \<Rightarrow> string \<Rightarrow> string \<Rightarrow> int option \<Rightarrow> failure + preview_response" where
  "preview_dataset ev w partner_id dataset_name parquet_rows_arg =
     (let parquet_rows = (case parquet_rows_arg of None \<Rightarrow> 5 | Some n \<Rightarrow> n)
      in if \<not> (1 \<le> parquet_rows \<and> parquet_rows \<le> 200)
         then Inl (Request_validation_error ''parquet_rows'')
         else (case get_dataset_by_partner_and_name_or_404 (db w) partner_id dataset_name of
                 Inl e \<Rightarrow> Inl e
               | Inr d \<Rightarrow>
                   (let root_dir = Path (ds_path d)
                    in case fs_lookup (disk w) root_dir of
                         None \<Rightarrow> Inl (HTTPException 404 (Text ''Dataset path missing on disk''))
                       | Some root_node \<Rightarrow>
                           (let parquet_files = parquet_files_of root_node
                            in case parquet_loop ev root_dir parquet_rows parquet_files [] [] of
                                 (parquet_previews, errors) \<Rightarrow>
                                   if \<not> pillow_installed ev
                                   then Inl (HTTPException 500
                                          (Text ''Pillow not installed (pip install pillow)''))
                                   else (let image_files = image_files_of root_node
                                         in case image_loop ev root_dir partner_id dataset_name
                                                   image_files [] errors of
                                              (image_previews, errors') \<Rightarrow>
                                                Inr \<lparr>pv_partner_id = partner_id,
                                                     pv_dataset_name = dataset_name,
                                                     pv_dataset_id = ds_id d,
                                                     pv_parquet_count = length parquet_files,
                                                     pv_parquet_previews = parquet_previews,
                                                     pv_images_count = length image_files,
                                                     pv_image_previews = image_previews,
                                                     pv_errors = errors'\<rparr>)))))"

section \<open>browse.py: the thumbnail\<close>

text \<open>
  Pillow's \<open>Image.thumbnail(size)\<close>, as far as the image's size goes: an image that fits is
  left alone; otherwise the new size keeps the aspect ratio, one side being the requested
  one and the other rounded to the nearer of floor and ceiling, at least 1. Pillow
  computes the ratio in floating point; here it is an exact rational. The division by a
  zero height raises.
\<close>

definition round_aspect :: "rat \<Rightarrow> (int \<Rightarrow> rat) \<Rightarrow> int" where
  "round_aspect number key =
     max (if key \<lceil>number\<rceil> < key \<lfloor>number\<rfloor> then \<lceil>number\<rceil> else \<lfloor>number\<rfloor>) 1"

definition pil_thumbnail :: "nat \<times> nat \<Rightarrow> pil_image \<Rightarrow> pil_image option" where
  "pil_thumbnail sz img =
     (let x = int (fst sz); y = int (snd sz);
          w = int (img_width img); h = int (img_height img)
      in if x \<ge> w \<and> y \<ge> h then Some img
         else if h = 0 \<or> y = 0 then None
         else (let aspect = (of_int w / of_int h :: rat)
               in if of_int x / of_int y \<ge> aspect
                  then Some (img\<lparr>img_width :=
                                    nat (round_aspect (of_int y * aspect)
                                           (\<lambda>n. \<bar>aspect - of_int n / of_int y\<bar>)),
                                  img_height := nat y\<rparr>)
                  else Some (img\<lparr>img_width := nat x,
                                  img_height :=
                                    nat (round_aspect (of_int x / aspect)
                                           (\<lambda>n. if n = 0 then 0
                                                 else \<bar>aspect - of_int x / of_int n\<bar>))\<rparr>)))"

text \<open>What \<open>img.save\<close> is asked to write, and the response's media type.\<close>

record rendered =
  out_format :: string
  out_width :: nat
  out_height :: nat
  out_mode :: string
  out_transparency :: bool
  out_quality :: "nat option"
  out_optimize :: bool
  out_media_type :: string

text \<open>
  The \<open>try\<close> block of \<open>thumbnail\<close> on the image \<open>Image.open(full)\<close> returned. An exception
  in it becomes the 400 answer; \<open>convert("RGB")\<close> discards any transparency.
\<close>

definition thumbnail_body :: "pil_image \<Rightarrow> failure + rendered" where
  "thumbnail_body img0 =
     (let thumbnail_max_size = 256
      in case pil_thumbnail (thumbnail_max_size, thumbnail_max_size) img0 of
           None \<Rightarrow> Inl (HTTPException 400 (Text ''Unable to read image''))
         | Some img \<Rightarrow>
             (let has_alpha = ((img_mode img = ''RGBA'' \<or> img_mode img = ''LA'')
                               \<or> (img_mode img = ''P'' \<and> img_transparency img))
              in if has_alpha
                 then Inr \<lparr>out_format = ''PNG'', out_width = img_width img,
                           out_height = img_height img, out_mode = img_mode img,
                           out_transparency = img_transparency img, out_quality = None,
                           out_optimize = False, out_media_type = ''image/png''\<rparr>
                 else (let img' = (if \<not> (img_mode img = ''RGB'' \<or> img_mode img = ''L'')
                                   then img\<lparr>img_mode := ''RGB'', img_transparency := False\<rparr>
                                   else img)
                       in Inr \<lparr>out_format = ''JPEG'', out_width = img_width img',
                                out_height = img_height img', out_mode = img_mode img',
                                out_transparency = False, out_quality = Some 85,
                                out_optimize = True, out_media_type = ''image/jpeg''\<rparr>)))"

section \<open>Notions the properties are stated with\<close>

text \<open>A file system has one entry per name in each directory.\<close>

fun wf_fs :: "fsnode \<Rightarrow> bool" where
  "wf_fs (FsFile b) = True"
| "wf_fs (FsDir es) = (distinct (map fst es) \<and> list_all (\<lambda>e. wf_fs (snd e)) es)"

text \<open>The bytes of the regular file at a path, if there is one.\<close>

definition file_at :: "fsnode \<Rightarrow> path \<Rightarrow> string option" where
  "file_at fs p = (case fs_lookup fs p of None \<Rightarrow> None | Some n \<Rightarrow>
                     (case n of FsFile b \<Rightarrow> Some b | FsDir es \<Rightarrow> None))"

text \<open>The regular files below a directory whose relative path is not hidden or metadata.\<close>

definition visible_files :: "fsnode \<Rightarrow> path \<Rightarrow> path set" where
  "visible_files fs root_dir =
     {q. file_at fs (root_dir @ q) \<noteq> None \<and> \<not> is_hidden_or_metadata_path q}"

text \<open>A submitted file is uploadable when its name is accepted and not hidden or metadata.\<close>

definition uploadable :: "upload_file \<Rightarrow> bool" where
  "uploadable f = (case storage_safe_relpath (uf_filename f) of
                     Inl e \<Rightarrow> False
                   | Inr rel \<Rightarrow> \<not> is_hidden_or_metadata_path rel)"

text \<open>The answer of \<open>upload\<close> when nothing uploadable is on disk.\<close>

definition no_uploadable_files :: failure where
  "no_uploadable_files =
     HTTPException 400 (Text ''No uploadable files found (hidden/metadata files were skipped)'')"

text \<open>The relative paths \<open>save_files\<close> writes for a list of submitted files.\<close>

definition uploaded_paths :: "upload_file list \<Rightarrow> path set" where
  "uploaded_paths files =
     {rel. \<exists>f \<in> set files. storage_safe_relpath (uf_filename f) = Inr rel
                             \<and> \<not> is_hidden_or_metadata_path rel}"

text \<open>Small worlds for the examples: nothing on disk; an earlier upload of one file into
  \<open>data/raw/p/d\<close>; a submission made only of metadata files.\<close>

definition fresh_world :: world where
  "fresh_world = \<lparr>disk = FsDir [], db = []\<rparr>"

definition world_with_earlier_upload :: world where
  "world_with_earlier_upload =
     \<lparr>disk = FsDir [(''data'', FsDir [(''raw'', FsDir [(''p'', FsDir [(''d'',
               FsDir [(''old.txt'', FsFile ''abc'')])])])])],
      db = []\<rparr>"

definition only_metadata :: "upload_file list" where
  "only_metadata = [\<lparr>uf_filename = ''.DS_Store'', uf_bytes = ''x''\<rparr>,
                    \<lparr>uf_filename = ''photos/._a.jpg'', uf_bytes = ''yy''\<rparr>]"

text \<open>A tree node's kind and name, and the order the children of a directory node are
  claimed to be in: directories before files, then by lower-cased name.\<close>

fun node_is_dir :: "tree_node \<Rightarrow> bool" where
  "node_is_dir (Directory n p cs) = True"
| "node_is_dir (File n p sz) = False"

fun node_name :: "tree_node \<Rightarrow> string" where
  "node_name (Directory n p cs) = n"
| "node_name (File n p sz) = n"

definition dirs_first_then_name :: "tree_node \<Rightarrow> tree_node \<Rightarrow> bool" where
  "dirs_first_then_name a b =
     ((node_is_dir b \<longrightarrow> node_is_dir a)
      \<and> (node_is_dir a = node_is_dir b \<longrightarrow> lower (node_name a) \<le> lower (node_name b)))"

text \<open>The order holds in every directory node of a tree.\<close>

fun all_ordered :: "tree_node \<Rightarrow> bool" where
  "all_ordered (File n p sz) = True"
| "all_ordered (Directory n p cs) = (sorted_wrt dirs_first_then_name cs \<and> list_all all_ordered cs)"


text \<open>The sort key of \<open>child_key\<close>, read off a node of the tree.\<close>

definition node_key :: "tree_node \<Rightarrow> bool \<times> string" where
  "node_key a = (\<not> node_is_dir a, lower (node_name a))"


definition browsing_world :: world where
  "browsing_world =
     \<lparr>disk = FsDir [(''data'', FsDir [(''raw'', FsDir [(''p'', FsDir [(''d'',
               FsDir [(''b.txt'', FsFile ''xy''), (''A_dir'', FsDir []), (''a.txt'', FsFile [])])])])])],
      db = [\<lparr>ds_id = ''id1'', ds_partner_id = ''p'', ds_name = ''d'', ds_type = ''mixed'',
             ds_path = ''data/raw/p/d'', ds_file_count = 2, ds_total_size_bytes = 2,
             ds_uploaded_at = 7\<rparr>]\<rparr>"



text \<open>
  An environment for the examples (the decoder fails on \<open>corrupt.parquet\<close> and prints a
  one-row table otherwise; every image opens), a dataset with one valid and one corrupt
  parquet file, and a dataset whose root holds only hidden files.
\<close>

definition preview_env :: env where
  "preview_env =
     \<lparr>subprocess_run = (\<lambda>p n. if path_name p = ''corrupt.parquet''
                               then Completed 1 [] ''ArrowInvalid: not a parquet file''
                               else Completed 0 ''ok'' []),
      json_loads = (\<lambda>s. if s = ''ok''
                         then Some (JObject [(''rows'', JArray [JObject [(''x'', JNumber ''1'')]]),
                                             (''columns'', JArray [JString ''x'']),
                                             (''returned'', JNumber ''1'')])
                         else None),
      pillow_installed = True,
      image_open = (\<lambda>p. Some \<lparr>img_width = 640, img_height = 480, img_mode = ''RGB'',
                                img_transparency = False\<rparr>)\<rparr>"


definition hidden_files_world :: world where
  "hidden_files_world =
     \<lparr>disk = FsDir [(''data'', FsDir [(''raw'', FsDir [(''p'', FsDir [(''d'',
               FsDir [(''._a.png'', FsFile ''xx''),
                      (''.cache'', FsDir [(''x.parquet'', FsFile ''PAR1'')])])])])])],
      db = [\<lparr>ds_id = ''id1'', ds_partner_id = ''p'', ds_name = ''d'', ds_type = ''mixed'',
             ds_path = ''data/raw/p/d'', ds_file_count = 0, ds_total_size_bytes = 0,
             ds_uploaded_at = 7\<rparr>]\<rparr>"

section \<open>Path resolution: lemmas\<close>

lemma path_parents_iff: "q \<in> set (path_parents p) \<longleftrightarrow> strict_prefix q p"
proof
  assume "q \<in> set (path_parents p)"
  then obtain n where n: "n < length p" "q = take n p"
    by (auto simp: path_parents_def)
  then have "prefix q p" "q \<noteq> p"
    by (auto simp: take_is_prefix)
  then show "strict_prefix q p"
    by (simp add: strict_prefix_def)
next
  assume "strict_prefix q p"
  then obtain zs where zs: "p = q @ zs" "zs \<noteq> []"
    by (auto simp: strict_prefix_def prefix_def)
  then have "length q < length p" "q = take (length q) p"
    by auto
  then show "q \<in> set (path_parents p)"
    unfolding path_parents_def by (metis (no_types, lifting) atLeast0LessThan image_eqI lessThan_iff set_map set_rev set_upt)
qed

lemma split_sep_not_Nil: "split_sep sep s \<noteq> []"
  by (induction s) (auto split: list.splits)

lemma posix_path_relative:
  "\<not> prefix ''/'' s \<Longrightarrow>
   posix_path s = \<lparr> path_root = [], path_segs = filter (\<lambda>x. x \<noteq> [] \<and> x \<noteq> ''.'') (split_sep (CHR ''/'') s) \<rparr>"
proof -
  assume a: "\<not> prefix ''/'' s"
  then have "dropWhile (\<lambda>c. c = CHR ''/'') s = s"
    by (cases s) auto
  with a show ?thesis
    by (simp add: posix_path_def)
qed

lemma is_absolute_posix_path: "is_absolute (posix_path s) \<longleftrightarrow> prefix ''/'' s"
  by (simp add: is_absolute_def posix_path_def Let_def)

lemma parts_never_empty_segment: "[] \<notin> set (parts (posix_path s))"
  by (auto simp: parts_def posix_path_def Let_def)

lemma dotdot_survives_parsing:
  assumes "\<not> prefix ''/'' s" and "''..'' \<in> set (split_sep (CHR ''/'') s)"
  shows "''..'' \<in> set (parts (posix_path s))"
  using assms by (simp add: posix_path_relative parts_def)

lemma absolute_or_dotdot_not_empty:
  assumes "prefix ''/'' (replace_backslash p) \<or> ''..'' \<in> set (split_sep (CHR ''/'') (replace_backslash p))"
  shows "p \<noteq> []"
  using assms by (auto simp: replace_backslash_def)

lemma split_sep_no_sep: "w \<in> set (split_sep sep s) \<Longrightarrow> sep \<notin> set w"
proof (induction s arbitrary: w)
  case Nil
  then show ?case by simp
next
  case (Cons c cs)
  show ?case
  proof (cases "c = sep")
    case True
    with Cons show ?thesis by auto
  next
    case False
    obtain v vs where vs: "split_sep sep cs = v # vs"
      using split_sep_not_Nil [of sep cs] by (cases "split_sep sep cs") auto
    with False Cons.prems have "w = c # v \<or> w \<in> set vs"
      by simp
    then show ?thesis
    proof
      assume "w = c # v"
      moreover have "sep \<notin> set v"
        using Cons.IH [of v] vs by simp
      ultimately show ?thesis
        using False by auto
    next
      assume "w \<in> set vs"
      then show ?thesis
        using Cons.IH [of w] vs by simp
    qed
  qed
qed

lemma split_sep_chars: "w \<in> set (split_sep sep s) \<Longrightarrow> set w \<subseteq> set s"
proof (induction s arbitrary: w)
  case Nil
  then show ?case by simp
next
  case (Cons c cs)
  show ?case
  proof (cases "c = sep")
    case True
    with Cons show ?thesis by auto
  next
    case False
    obtain v vs where vs: "split_sep sep cs = v # vs"
      using split_sep_not_Nil [of sep cs] by (cases "split_sep sep cs") auto
    with False Cons.prems have "w = c # v \<or> w \<in> set vs"
      by simp
    then show ?thesis
    proof
      assume "w = c # v"
      moreover have "set v \<subseteq> set cs"
        using Cons.IH [of v] vs by simp
      ultimately show ?thesis
        by auto
    next
      assume "w \<in> set vs"
      then show ?thesis
        using Cons.IH [of w] vs by auto
    qed
  qed
qed

lemma backslash_replaced: "BACKSLASH \<notin> set (replace_backslash s)"
  by (auto simp: replace_backslash_def BACKSLASH_def)

lemma storage_safe_relpath_segments:
  assumes "storage_safe_relpath p = Inr rel" and "s \<in> set rel"
  shows "s \<noteq> [] \<and> s \<noteq> ''.'' \<and> s \<noteq> ''..'' \<and> CHR ''/'' \<notin> set s \<and> BACKSLASH \<notin> set s"
proof -
  let ?n = "replace_backslash p"
  from assms(1) have rel: "rel = parts (posix_path ?n)" and na: "\<not> is_absolute (posix_path ?n)"
    and nd: "\<not> list_ex (\<lambda>part. part = ''..'' \<or> part = []) (parts (posix_path ?n))"
    by (auto simp: storage_safe_relpath_def Let_def split: if_splits)
  from na have np: "\<not> prefix ''/'' ?n"
    by (simp add: is_absolute_posix_path)
  have "rel = filter (\<lambda>x. x \<noteq> [] \<and> x \<noteq> ''.'') (split_sep (CHR ''/'') ?n)"
    by (simp add: rel posix_path_relative [OF np] parts_def)
  with assms(2) have m: "s \<in> set (split_sep (CHR ''/'') ?n)" and a: "s \<noteq> []" "s \<noteq> ''.''"
    by auto
  from nd assms(2) have b: "s \<noteq> ''..''"
    by (auto simp: list_ex_iff rel)
  from split_sep_no_sep [OF m] have c: "CHR ''/'' \<notin> set s" .
  from split_sep_chars [OF m] backslash_replaced [of p] have d: "BACKSLASH \<notin> set s"
    by auto
  from a b c d show ?thesis
    by simp
qed

text \<open>
  Claim C1. Whatever \<open>_safe_join_dataset\<close> returns for an untrusted path is the resolved
  dataset root itself or lies properly below it, for every canonicalisation \<open>resolve\<close> the
  operating system may perform. What \<open>storage._safe_relpath\<close> accepts is a list of plain
  names (none empty, \<open>.\<close> or \<open>..\<close>, none holding a separator), so the destination
  \<open>root / rel\<close> is the root followed by these names. A path that is absolute (it starts
  with a separator once backslashes are normalised) or has a \<open>..\<close> segment is refused: by
  \<open>_safe_join_dataset\<close> with an \<open>HTTPException\<close> of status 400, by
  \<open>storage._safe_relpath\<close> with the \<open>ValueError\<close> that \<open>upload\<close> turns into status 400.
\<close>

theorem C1_resolve_stays_below_root:
  "(safe_join_dataset resolve root_dir p = Inr full \<longrightarrow>
      full = resolve root_dir \<or> strict_prefix (resolve root_dir) full)
   \<and> (storage_safe_relpath p = Inr rel \<longrightarrow>
      prefix root_dir (root_dir @ rel)
      \<and> list_all (\<lambda>s. s \<noteq> [] \<and> s \<noteq> ''.'' \<and> s \<noteq> ''..''
                      \<and> CHR ''/'' \<notin> set s \<and> BACKSLASH \<notin> set s) rel)
   \<and> (prefix ''/'' (replace_backslash p)
        \<or> ''..'' \<in> set (split_sep (CHR ''/'') (replace_backslash p)) \<longrightarrow>
      (\<exists>d. safe_join_dataset resolve root_dir p = Inl (HTTPException 400 d))
      \<and> (storage_safe_relpath p = Inl (Absolute_paths_not_allowed p)
         \<or> storage_safe_relpath p = Inl (Invalid_path p)))"
proof (intro conjI impI)
  assume "safe_join_dataset resolve root_dir p = Inr full"
  then show "full = resolve root_dir \<or> strict_prefix (resolve root_dir) full"
    by (auto simp: safe_join_dataset_def Let_def path_parents_iff split: sum.splits if_splits)
next
  assume "storage_safe_relpath p = Inr rel"
  then show "list_all (\<lambda>s. s \<noteq> [] \<and> s \<noteq> ''.'' \<and> s \<noteq> ''..''
                      \<and> CHR ''/'' \<notin> set s \<and> BACKSLASH \<notin> set s) rel"
    unfolding list_all_iff using storage_safe_relpath_segments by blast
  show "prefix root_dir (root_dir @ rel)"
    by simp
next
  assume bad: "prefix ''/'' (replace_backslash p)
               \<or> ''..'' \<in> set (split_sep (CHR ''/'') (replace_backslash p))"
  then have ne: "p \<noteq> []"
    by (rule absolute_or_dotdot_not_empty)
  have dd: "\<not> prefix ''/'' (replace_backslash p) \<Longrightarrow>
            ''..'' \<in> set (parts (posix_path (replace_backslash p)))"
    using bad dotdot_survives_parsing by blast
  have "\<exists>d. browse_safe_relpath p = Inl (HTTPException 400 d)"
    using ne dd by (auto simp: browse_safe_relpath_def Let_def is_absolute_posix_path)
  then show "\<exists>d. safe_join_dataset resolve root_dir p = Inl (HTTPException 400 d)"
    by (auto simp: safe_join_dataset_def Let_def)
  show "storage_safe_relpath p = Inl (Absolute_paths_not_allowed p)
        \<or> storage_safe_relpath p = Inl (Invalid_path p)"
    using ne dd by (auto simp: storage_safe_relpath_def Let_def is_absolute_posix_path list_ex_iff)
qed

theorem C1_witness:
  "safe_join_dataset (\<lambda>q. ''srv'' # q) [''d''] ''sub/a.png'' = Inr [''srv'', ''d'', ''sub'', ''a.png'']
   \<and> strict_prefix [''srv'', ''d''] [''srv'', ''d'', ''sub'', ''a.png'']
   \<and> storage_safe_relpath ''sub/a.png'' = Inr [''sub'', ''a.png'']
   \<and> prefix [''data'', ''raw'', ''p'', ''d''] ([''data'', ''raw'', ''p'', ''d''] @ [''sub'', ''a.png''])
   \<and> (\<exists>d. safe_join_dataset (\<lambda>q. ''srv'' # q) [''d''] ''sub/../../x'' = Inl (HTTPException 400 d))
   \<and> storage_safe_relpath ''/etc/passwd'' = Inl (Absolute_paths_not_allowed ''/etc/passwd'')"
proof -
  have ok: "safe_join_dataset (\<lambda>q. ''srv'' # q) [''d''] ''sub/a.png'' = Inr [''srv'', ''d'', ''sub'', ''a.png'']"
    by code_simp
  have sok: "storage_safe_relpath ''sub/a.png'' = Inr [''sub'', ''a.png'']"
    by code_simp
  have dots: "''..'' \<in> set (split_sep (CHR ''/'') (replace_backslash ''sub/../../x''))"
    by code_simp
  have abs: "prefix ''/'' (replace_backslash ''/etc/passwd'')"
    by code_simp
  from C1_resolve_stays_below_root [of "\<lambda>q. ''srv'' # q" "[''d'']" "''sub/a.png''" "[''srv'', ''d'', ''sub'', ''a.png'']"] ok
  have below: "strict_prefix [''srv'', ''d''] [''srv'', ''d'', ''sub'', ''a.png'']"
    by simp
  from C1_resolve_stays_below_root [of _ "[''data'', ''raw'', ''p'', ''d'']" "''sub/a.png''" _ "[''sub'', ''a.png'']"] sok
  have pre: "prefix [''data'', ''raw'', ''p'', ''d''] ([''data'', ''raw'', ''p'', ''d''] @ [''sub'', ''a.png''])"
    by blast
  from C1_resolve_stays_below_root [of "\<lambda>q. ''srv'' # q" "[''d'']" "''sub/../../x''"] dots
  have rej: "\<exists>d. safe_join_dataset (\<lambda>q. ''srv'' # q) [''d''] ''sub/../../x'' = Inl (HTTPException 400 d)"
    by blast
  from C1_resolve_stays_below_root [of _ _ "''/etc/passwd''"] abs
  have "storage_safe_relpath ''/etc/passwd'' = Inl (Absolute_paths_not_allowed ''/etc/passwd'')
        \<or> storage_safe_relpath ''/etc/passwd'' = Inl (Invalid_path ''/etc/passwd'')"
    by blast
  moreover have "storage_safe_relpath ''/etc/passwd'' \<noteq> Inl (Invalid_path ''/etc/passwd'')"
    by code_simp
  ultimately have st: "storage_safe_relpath ''/etc/passwd'' = Inl (Absolute_paths_not_allowed ''/etc/passwd'')"
    by blast
  from ok below sok pre rej st show ?thesis
    by blast
qed

text \<open>
  Claim C4. pathlib drops empty components while it parses, so the test for an empty
  part in \<open>storage._safe_relpath\<close> never fires and \<open>browse._safe_relpath\<close> has none:
  \<open>a//b\<close> and \<open>a/\<close> are accepted and silently normalised to \<open>a/b\<close> and \<open>a\<close>.
\<close>

theorem C4_empty_segments_accepted:
  "storage_safe_relpath ''a//b'' = Inr [''a'', ''b'']
   \<and> storage_safe_relpath ''a/'' = Inr [''a'']
   \<and> browse_safe_relpath ''a//b'' = Inr [''a'', ''b'']
   \<and> browse_safe_relpath ''a/'' = Inr [''a'']
   \<and> [] \<in> set (split_sep (CHR ''/'') (replace_backslash ''a//b''))
   \<and> [] \<in> set (split_sep (CHR ''/'') (replace_backslash ''a/''))"
  by code_simp

section \<open>The file system: lemmas\<close>


lemma fs_lookup_append:
  "fs_lookup n (p @ q) = (case fs_lookup n p of None \<Rightarrow> None | Some m \<Rightarrow> fs_lookup m q)"
  by (induction p arbitrary: n) (auto split: fsnode.splits option.splits)

lemma fs_lookup_file_Cons: "fs_lookup (FsFile b) q = Some x \<longleftrightarrow> q = [] \<and> x = FsFile b"
  by (cases q) auto

lemma fs_lookup_empty_dir: "fs_lookup (FsDir []) q = Some x \<longleftrightarrow> q = [] \<and> x = FsDir []"
  by (cases q) auto

lemma mkdir_p_keeps_files:
  "mkdir_p n p = Inr n' \<Longrightarrow> fs_lookup n' q = Some (FsFile c) \<longleftrightarrow> fs_lookup n q = Some (FsFile c)"
proof (induction p arbitrary: n n' q)
  case Nil
  then show ?case by (auto split: fsnode.splits)
next
  case (Cons s ss)
  from Cons.prems obtain es c' where n: "n = FsDir es"
    and c': "mkdir_p (case map_of es s of None \<Rightarrow> FsDir [] | Some c \<Rightarrow> c) ss = Inr c'"
    and n': "n' = FsDir (AList.update s c' es)"
    by (auto split: fsnode.splits sum.splits)
  show ?case
  proof (cases q)
    case Nil
    then show ?thesis by (simp add: n n')
  next
    case (Cons t ts)
    show ?thesis
    proof (cases "t = s")
      case True
      have "fs_lookup c' ts = Some (FsFile c) \<longleftrightarrow>
            fs_lookup (case map_of es s of None \<Rightarrow> FsDir [] | Some c \<Rightarrow> c) ts = Some (FsFile c)"
        using Cons.IH [OF c'] .
      then show ?thesis
        using True by (auto simp: n n' Cons update_conv' fs_lookup_empty_dir split: option.splits)
    next
      case False
      then show ?thesis by (simp add: n n' Cons update_conv')
    qed
  qed
qed

lemma write_file_files:
  "write_file n p b = Inr n' \<Longrightarrow>
   fs_lookup n' q = Some (FsFile c) \<longleftrightarrow> (if q = p then c = b else fs_lookup n q = Some (FsFile c))"
proof (induction p arbitrary: n n' q)
  case Nil
  then show ?case by (auto split: fsnode.splits simp: fs_lookup_file_Cons)
next
  case (Cons s ss)
  from Cons.prems obtain es where n: "n = FsDir es"
    by (auto split: fsnode.splits)
  show ?case
  proof (cases "map_of es s")
    case None
    with Cons.prems n have ss: "ss = []" and n': "n' = FsDir (AList.update s (FsFile b) es)"
      by (auto split: if_splits)
    show ?thesis
    proof (cases q)
      case Nil
      then show ?thesis by (simp add: n n')
    next
      case (Cons t ts)
      then show ?thesis
        using None by (auto simp: n n' ss update_conv' fs_lookup_file_Cons)
    qed
  next
    case (Some ch)
    with Cons.prems n obtain c' where c': "write_file ch ss b = Inr c'"
      and n': "n' = FsDir (AList.update s c' es)"
      by (auto split: sum.splits)
    show ?thesis
    proof (cases q)
      case Nil
      then show ?thesis by (simp add: n n')
    next
      case (Cons t ts)
      show ?thesis
      proof (cases "t = s")
        case True
        then show ?thesis
          using Cons.IH [OF c', of ts] Some by (auto simp: n n' Cons update_conv')
      next
        case False
        then show ?thesis by (auto simp: n n' Cons update_conv')
      qed
    qed
  qed
qed


lemma list_all_update:
  "list_all P es \<Longrightarrow> P (s, c) \<Longrightarrow> list_all P (AList.update s c es)"
  by (induction es) auto

lemma wf_fs_update:
  assumes "wf_fs (FsDir es)" "wf_fs c"
  shows "wf_fs (FsDir (AList.update s c es))"
  using assms by (simp add: distinct_update list_all_update)

lemma wf_fs_map_of:
  "list_all (\<lambda>e. wf_fs (snd e)) es \<Longrightarrow> map_of es s = Some c \<Longrightarrow> wf_fs c"
  by (metis list_all_iff map_of_SomeD snd_conv)

lemma wf_fs_mkdir_p: "mkdir_p n p = Inr n' \<Longrightarrow> wf_fs n \<Longrightarrow> wf_fs n'"
proof (induction p arbitrary: n n')
  case Nil
  then show ?case by (auto split: fsnode.splits)
next
  case (Cons s ss)
  from Cons.prems obtain es c' where n: "n = FsDir es"
    and c': "mkdir_p (case map_of es s of None \<Rightarrow> FsDir [] | Some c \<Rightarrow> c) ss = Inr c'"
    and n': "n' = FsDir (AList.update s c' es)"
    by (auto split: fsnode.splits sum.splits)
  have "wf_fs (case map_of es s of None \<Rightarrow> FsDir [] | Some c \<Rightarrow> c)"
    using Cons.prems(2) n by (auto split: option.splits dest: wf_fs_map_of)
  then have "wf_fs c'"
    using Cons.IH [OF c'] by simp
  then show ?case
    using Cons.prems(2) wf_fs_update [of es c' s] by (simp add: n n')
qed

lemma wf_fs_write_file: "write_file n p b = Inr n' \<Longrightarrow> wf_fs n \<Longrightarrow> wf_fs n'"
proof (induction p arbitrary: n n')
  case Nil
  then show ?case by (auto split: fsnode.splits)
next
  case (Cons s ss)
  from Cons.prems obtain es where n: "n = FsDir es"
    by (auto split: fsnode.splits)
  show ?case
  proof (cases "map_of es s")
    case None
    with Cons.prems n have n': "n' = FsDir (AList.update s (FsFile b) es)"
      by (auto split: if_splits)
    show ?thesis
      using Cons.prems(2) wf_fs_update [of es "FsFile b" s] by (simp add: n n')
  next
    case (Some ch)
    with Cons.prems n obtain c' where c': "write_file ch ss b = Inr c'"
      and n': "n' = FsDir (AList.update s c' es)"
      by (auto split: sum.splits)
    have "wf_fs ch"
      using Cons.prems(2) n Some by (auto dest: wf_fs_map_of)
    then have "wf_fs c'"
      using Cons.IH [OF c'] by simp
    then show ?thesis
      using Cons.prems(2) wf_fs_update [of es c' s] by (simp add: n n')
  qed
qed

lemma mkdir_p_is_dir: "mkdir_p n p = Inr n' \<Longrightarrow> \<exists>es. fs_lookup n' p = Some (FsDir es)"
proof (induction p arbitrary: n n')
  case Nil
  then show ?case by (auto split: fsnode.splits)
next
  case (Cons s ss)
  from Cons.prems obtain es c' where n: "n = FsDir es"
    and c': "mkdir_p (case map_of es s of None \<Rightarrow> FsDir [] | Some c \<Rightarrow> c) ss = Inr c'"
    and n': "n' = FsDir (AList.update s c' es)"
    by (auto split: fsnode.splits sum.splits)
  from Cons.IH [OF c'] show ?case
    by (simp add: n' update_conv')
qed

lemma rglob_lookup:
  "wf_fs n \<Longrightarrow> (q, x) \<in> set (rglob n) \<longleftrightarrow> q \<noteq> [] \<and> fs_lookup n q = Some x"
proof (induction n arbitrary: q x)
  case (FsFile b)
  then show ?case by (cases q) auto
next
  case (FsDir es)
  have d: "distinct (map fst es)" and w: "\<And>e. e \<in> set es \<Longrightarrow> wf_fs (snd e)"
    using FsDir.prems by (auto simp: list_all_iff)
  have ih: "\<And>s c q x. (s, c) \<in> set es \<Longrightarrow> (q, x) \<in> set (rglob c) \<longleftrightarrow> q \<noteq> [] \<and> fs_lookup c q = Some x"
  proof -
    fix s c q x assume a: "(s, c) \<in> set es"
    then have "c \<in> Basic_BNFs.snds (s, c)" by simp
    from FsDir.IH [OF a this] w [OF a] show "(q, x) \<in> set (rglob c) \<longleftrightarrow> q \<noteq> [] \<and> fs_lookup c q = Some x"
      by simp
  qed
  show ?case
  proof (cases q)
    case Nil
    then show ?thesis by auto
  next
    case (Cons t ts)
    have "(t # ts, x) \<in> set (rglob (FsDir es)) \<longleftrightarrow>
          (\<exists>c. (t, c) \<in> set es \<and> ((ts = [] \<and> x = c) \<or> (ts, x) \<in> set (rglob c)))"
      by (auto simp: image_iff) force+
    also have "\<dots> \<longleftrightarrow> (\<exists>c. map_of es t = Some c \<and> ((ts = [] \<and> x = c) \<or> (ts, x) \<in> set (rglob c)))"
      using d by (auto dest: map_of_SomeD)
    also have "\<dots> \<longleftrightarrow> (\<exists>c. map_of es t = Some c \<and> fs_lookup c ts = Some x)"
    proof -
      have "((ts = [] \<and> x = c) \<or> (ts, x) \<in> set (rglob c)) \<longleftrightarrow> fs_lookup c ts = Some x"
        if "map_of es t = Some c" for c
      proof -
        from that have "(t, c) \<in> set es" by (rule map_of_SomeD)
        from ih [OF this, of ts x] show ?thesis
          by (cases "ts = []") auto
      qed
      then show ?thesis by blast
    qed
    finally show ?thesis
      by (auto simp: Cons split: option.splits)
  qed
qed

lemma rglob_path_not_Nil: "(q, x) \<in> set (rglob n) \<Longrightarrow> q \<noteq> []"
  by (cases n) auto

lemma distinct_rglob: "wf_fs n \<Longrightarrow> distinct (map fst (rglob n))"
proof (induction n)
  case (FsFile b)
  then show ?case by simp
next
  case (FsDir es)
  have d: "distinct (map fst es)" and w: "\<And>e. e \<in> set es \<Longrightarrow> wf_fs (snd e)"
    using FsDir.prems by (auto simp: list_all_iff)
  have ih: "\<And>e. e \<in> set es \<Longrightarrow> distinct (map fst (rglob (snd e)))"
  proof -
    fix e assume a: "e \<in> set es"
    have "snd e \<in> Basic_BNFs.snds e" by (cases e) simp
    from FsDir.IH [OF a this] w [OF a] show "distinct (map fst (rglob (snd e)))" by simp
  qed
  have "distinct (concat (map (\<lambda>e. map fst (([fst e], snd e) # map (\<lambda>q. (fst e # fst q, snd q)) (rglob (snd e)))) es))"
    using d ih
  proof (induction es)
    case Nil
    then show ?case by simp
  next
    case (Cons e es)
    have inj: "distinct (map (\<lambda>q. fst e # fst q) (rglob (snd e)))"
      using Cons.prems(2) [of e] by (simp add: distinct_map inj_on_def comp_def)
    show ?case
      using Cons inj by (auto simp: comp_def image_iff dest: rglob_path_not_Nil)
  qed
  then show ?case
    by (simp add: map_concat comp_def)
qed

section \<open>Uploads: lemmas and properties\<close>


lemma mkdir_p_keeps_dirs:
  "mkdir_p n p = Inr n' \<Longrightarrow> fs_lookup n q = Some (FsDir es) \<Longrightarrow> \<exists>es'. fs_lookup n' q = Some (FsDir es')"
proof (induction p arbitrary: n n' q es)
  case Nil
  then show ?case by (auto split: fsnode.splits)
next
  case (Cons s ss)
  from Cons.prems(1) obtain es0 c' where n: "n = FsDir es0"
    and c': "mkdir_p (case map_of es0 s of None \<Rightarrow> FsDir [] | Some c \<Rightarrow> c) ss = Inr c'"
    and n': "n' = FsDir (AList.update s c' es0)"
    by (auto split: fsnode.splits sum.splits)
  show ?case
  proof (cases q)
    case Nil
    then show ?thesis by (simp add: n')
  next
    case q: (Cons t ts)
    show ?thesis
    proof (cases "t = s")
      case True
      with Cons.prems(2) obtain c where c: "map_of es0 s = Some c" "fs_lookup c ts = Some (FsDir es)"
        by (auto simp: n q split: option.splits)
      from Cons.IH [OF c' [unfolded c(1), simplified] c(2)] show ?thesis
        using True by (simp add: n' q update_conv')
    next
      case False
      with Cons.prems(2) show ?thesis by (simp add: n n' q update_conv')
    qed
  qed
qed

lemma write_file_keeps_dirs:
  "write_file n p b = Inr n' \<Longrightarrow> fs_lookup n q = Some (FsDir es) \<Longrightarrow> \<exists>es'. fs_lookup n' q = Some (FsDir es')"
proof (induction p arbitrary: n n' q es)
  case Nil
  then show ?case by (auto split: fsnode.splits simp: fs_lookup_file_Cons)
next
  case (Cons s ss)
  from Cons.prems(1) obtain es0 where n: "n = FsDir es0"
    by (auto split: fsnode.splits)
  show ?case
  proof (cases q)
    case Nil
    with Cons.prems(1) show ?thesis
      by (auto simp: n split: option.splits if_splits sum.splits)
  next
    case q: (Cons t ts)
    show ?thesis
    proof (cases "t = s")
      case True
      with Cons.prems(2) obtain c where c: "map_of es0 s = Some c" "fs_lookup c ts = Some (FsDir es)"
        by (auto simp: n q split: option.splits)
      with Cons.prems(1) n obtain c' where c': "write_file c ss b = Inr c'"
        and n': "n' = FsDir (AList.update s c' es0)"
        by (auto split: sum.splits)
      from Cons.IH [OF c' c(2)] show ?thesis
        using True by (simp add: n' q update_conv')
    next
      case False
      with Cons.prems show ?thesis
        by (auto simp: n q update_conv' split: option.splits if_splits sum.splits)
    qed
  qed
qed

lemma mkdir_p_creates_empty:
  "mkdir_p n p = Inr n' \<Longrightarrow> fs_lookup n p = None \<Longrightarrow> fs_lookup n' p = Some (FsDir [])"
proof (induction p arbitrary: n n')
  case Nil
  then show ?case by simp
next
  case (Cons s ss)
  from Cons.prems(1) obtain es0 c' where n: "n = FsDir es0"
    and c': "mkdir_p (case map_of es0 s of None \<Rightarrow> FsDir [] | Some c \<Rightarrow> c) ss = Inr c'"
    and n': "n' = FsDir (AList.update s c' es0)"
    by (auto split: fsnode.splits sum.splits)
  show ?case
  proof (cases "map_of es0 s")
    case None
    show ?thesis
    proof (cases ss)
      case Nil
      with c' None show ?thesis by (simp add: n' update_conv')
    next
      case (Cons t ts)
      then have "fs_lookup (FsDir []) ss = None" by simp
      from Cons.IH [OF c' [unfolded None, simplified] this] show ?thesis
        by (simp add: n' update_conv')
    qed
  next
    case (Some c)
    with Cons.prems(2) have "fs_lookup c ss = None" by (simp add: n)
    from Cons.IH [OF c' [unfolded Some, simplified] this] show ?thesis
      by (simp add: n' update_conv')
  qed
qed

lemma file_at_mkdir_p: "mkdir_p n p = Inr n' \<Longrightarrow> file_at n' q = file_at n q"
proof -
  assume a: "mkdir_p n p = Inr n'"
  have "file_at n' q = Some c \<longleftrightarrow> file_at n q = Some c" for c
    using mkdir_p_keeps_files [OF a, of q c]
    by (auto simp: file_at_def split: option.splits fsnode.splits)
  then show ?thesis
    by (metis option.exhaust)
qed

lemma file_at_write_file:
  "write_file n p b = Inr n' \<Longrightarrow> file_at n' q = (if q = p then Some b else file_at n q)"
proof -
  assume a: "write_file n p b = Inr n'"
  have "file_at n' q = Some c \<longleftrightarrow> (if q = p then Some b else file_at n q) = Some c" for c
    using write_file_files [OF a, of q c]
    by (auto simp: file_at_def split: option.splits fsnode.splits)
  then show ?thesis
    by (metis option.exhaust)
qed


lemma py_mkdir_Inr: "py_mkdir fs p = Inr fs' \<Longrightarrow> mkdir_p fs p = Inr fs'"
  by (auto simp: py_mkdir_def split: if_splits sum.splits)

lemma py_open_write_Inr: "py_open_write fs p b = Inr fs' \<Longrightarrow> write_file fs p b = Inr fs'"
  by (auto simp: py_open_write_def split: if_splits sum.splits)

lemma save_loop_step:
  assumes "save_loop root_dir fs (f # rest) = (r, fs')"
  shows "(\<exists>e. storage_safe_relpath (uf_filename f) = Inl e \<and> r = Inl (ValueError e) \<and> fs' = fs)
       \<or> (\<exists>rel. storage_safe_relpath (uf_filename f) = Inr rel \<and> is_hidden_or_metadata_path rel
                \<and> save_loop root_dir fs rest = (r, fs'))
       \<or> (\<exists>rel e. storage_safe_relpath (uf_filename f) = Inr rel \<and> \<not> is_hidden_or_metadata_path rel
                \<and> py_mkdir fs (path_parent (root_dir @ rel)) = Inl e \<and> r = Inl e \<and> fs' = fs)
       \<or> (\<exists>rel fs1 e. storage_safe_relpath (uf_filename f) = Inr rel \<and> \<not> is_hidden_or_metadata_path rel
                \<and> mkdir_p fs (path_parent (root_dir @ rel)) = Inr fs1
                \<and> py_open_write fs1 (root_dir @ rel) (uf_bytes f) = Inl e \<and> r = Inl e \<and> fs' = fs1)
       \<or> (\<exists>rel fs1 fs2. storage_safe_relpath (uf_filename f) = Inr rel \<and> \<not> is_hidden_or_metadata_path rel
                \<and> mkdir_p fs (path_parent (root_dir @ rel)) = Inr fs1
                \<and> write_file fs1 (root_dir @ rel) (uf_bytes f) = Inr fs2
                \<and> save_loop root_dir fs2 rest = (r, fs'))"
proof (cases "storage_safe_relpath (uf_filename f)")
  case (Inl e)
  with assms show ?thesis by auto
next
  case rel: (Inr rel)
  show ?thesis
  proof (cases "is_hidden_or_metadata_path rel")
    case True
    with assms rel show ?thesis by simp
  next
    case vis: False
    show ?thesis
    proof (cases "py_mkdir fs (path_parent (root_dir @ rel))")
      case (Inl e)
      with assms rel vis show ?thesis by (simp add: Let_def)
    next
      case m: (Inr fs1)
      show ?thesis
      proof (cases "py_open_write fs1 (root_dir @ rel) (uf_bytes f)")
        case (Inl e)
        with assms rel vis m py_mkdir_Inr [OF m] show ?thesis by (simp add: Let_def)
      next
        case w: (Inr fs2)
        with assms rel vis m py_mkdir_Inr [OF m] py_open_write_Inr [OF w] show ?thesis
          by (simp add: Let_def)
      qed
    qed
  qed
qed

lemma save_loop_keeps_dirs:
  "save_loop root_dir fs files = (r, fs') \<Longrightarrow> fs_lookup fs q = Some (FsDir es) \<Longrightarrow>
   \<exists>es'. fs_lookup fs' q = Some (FsDir es')"
proof (induction files arbitrary: fs es)
  case Nil
  then show ?case by simp
next
  case (Cons f rest)
  from save_loop_step [OF Cons.prems(1)] show ?case
  proof (elim disjE exE conjE)
    fix e assume "fs' = fs"
    with Cons.prems(2) show ?thesis by simp
  next
    fix rel assume "save_loop root_dir fs rest = (r, fs')"
    from Cons.IH [OF this Cons.prems(2)] show ?thesis .
  next
    fix rel e assume "fs' = fs"
    with Cons.prems(2) show ?thesis by simp
  next
    fix rel fs1 e
    assume "mkdir_p fs (path_parent (root_dir @ rel)) = Inr fs1" "fs' = fs1"
    with mkdir_p_keeps_dirs Cons.prems(2) show ?thesis by blast
  next
    fix rel fs1 fs2
    assume m: "mkdir_p fs (path_parent (root_dir @ rel)) = Inr fs1"
      and w: "write_file fs1 (root_dir @ rel) (uf_bytes f) = Inr fs2"
      and l: "save_loop root_dir fs2 rest = (r, fs')"
    from mkdir_p_keeps_dirs [OF m Cons.prems(2)] obtain es1 where "fs_lookup fs1 q = Some (FsDir es1)" ..
    from write_file_keeps_dirs [OF w this] obtain es2 where "fs_lookup fs2 q = Some (FsDir es2)" ..
    from Cons.IH [OF l this] show ?thesis .
  qed
qed

lemma save_loop_wf:
  "save_loop root_dir fs files = (r, fs') \<Longrightarrow> wf_fs fs \<Longrightarrow> wf_fs fs'"
proof (induction files arbitrary: fs)
  case Nil
  then show ?case by simp
next
  case (Cons f rest)
  from save_loop_step [OF Cons.prems(1)] show ?case
  proof (elim disjE exE conjE)
    fix e assume "fs' = fs"
    with Cons.prems(2) show ?thesis by simp
  next
    fix rel assume "save_loop root_dir fs rest = (r, fs')"
    from Cons.IH [OF this Cons.prems(2)] show ?thesis .
  next
    fix rel e assume "fs' = fs"
    with Cons.prems(2) show ?thesis by simp
  next
    fix rel fs1 e
    assume "mkdir_p fs (path_parent (root_dir @ rel)) = Inr fs1" "fs' = fs1"
    with wf_fs_mkdir_p Cons.prems(2) show ?thesis by blast
  next
    fix rel fs1 fs2
    assume m: "mkdir_p fs (path_parent (root_dir @ rel)) = Inr fs1"
      and w: "write_file fs1 (root_dir @ rel) (uf_bytes f) = Inr fs2"
      and l: "save_loop root_dir fs2 rest = (r, fs')"
    from wf_fs_write_file [OF w wf_fs_mkdir_p [OF m Cons.prems(2)]] have "wf_fs fs2" .
    from Cons.IH [OF l this] show ?thesis .
  qed
qed

lemma uploaded_paths_Cons:
  "uploaded_paths (f # rest) =
     (case storage_safe_relpath (uf_filename f) of
        Inl e \<Rightarrow> {}
      | Inr rel \<Rightarrow> if is_hidden_or_metadata_path rel then {} else {rel}) \<union> uploaded_paths rest"
  by (auto simp: uploaded_paths_def split: sum.splits)

lemma save_loop_files:
  "save_loop root_dir fs files = (Inr u, fs') \<Longrightarrow>
   file_at fs' p \<noteq> None \<longleftrightarrow> file_at fs p \<noteq> None \<or> p \<in> (\<lambda>rel. root_dir @ rel) ` uploaded_paths files"
proof (induction files arbitrary: fs)
  case Nil
  then show ?case by (simp add: uploaded_paths_def)
next
  case (Cons f rest)
  from save_loop_step [OF Cons.prems(1)] show ?case
  proof (elim disjE exE conjE)
    fix rel
    assume "storage_safe_relpath (uf_filename f) = Inr rel" "is_hidden_or_metadata_path rel"
      "save_loop root_dir fs rest = (Inr u, fs')"
    with Cons.IH [of fs] show ?thesis
      by (simp add: uploaded_paths_Cons)
  next
    fix rel fs1 fs2
    assume s: "storage_safe_relpath (uf_filename f) = Inr rel" "\<not> is_hidden_or_metadata_path rel"
      and m: "mkdir_p fs (path_parent (root_dir @ rel)) = Inr fs1"
      and w: "write_file fs1 (root_dir @ rel) (uf_bytes f) = Inr fs2"
      and l: "save_loop root_dir fs2 rest = (Inr u, fs')"
    have "file_at fs2 p \<noteq> None \<longleftrightarrow> file_at fs p \<noteq> None \<or> p = root_dir @ rel"
      by (simp add: file_at_write_file [OF w] file_at_mkdir_p [OF m])
    with Cons.IH [OF l] s show ?thesis
      by (auto simp: uploaded_paths_Cons)
  qed auto
qed

lemma save_loop_nothing_uploadable:
  "list_all (\<lambda>f. \<exists>rel. storage_safe_relpath (uf_filename f) = Inr rel \<and> is_hidden_or_metadata_path rel) files
   \<Longrightarrow> save_loop root_dir fs files = (Inr (), fs)"
  by (induction files) auto

lemma save_loop_names_accepted:
  "save_loop root_dir fs files = (Inr u, fs') \<Longrightarrow>
   list_all (\<lambda>f. \<exists>rel. storage_safe_relpath (uf_filename f) = Inr rel) files"
proof (induction files arbitrary: fs)
  case Nil
  then show ?case by simp
next
  case (Cons f rest)
  from save_loop_step [OF Cons.prems(1)] Cons.IH show ?case
    by (elim disjE exE conjE) auto
qed


lemma wf_fs_lookup: "wf_fs n \<Longrightarrow> fs_lookup n p = Some m \<Longrightarrow> wf_fs m"
proof (induction p arbitrary: n)
  case Nil
  then show ?case by simp
next
  case (Cons s ss)
  then show ?case
    by (auto split: fsnode.splits option.splits dest: wf_fs_map_of)
qed

lemma file_at_below_dir:
  assumes "fs_lookup fs root_dir = Some (FsDir es)"
  shows "file_at fs (root_dir @ q) = Some b \<longleftrightarrow> q \<noteq> [] \<and> fs_lookup (FsDir es) q = Some (FsFile b)"
  using assms by (cases "q = []") (auto simp: file_at_def fs_lookup_append split: option.splits fsnode.splits)

lemma visible_walk:
  assumes wf: "wf_fs fs" and dir: "fs_lookup fs root_dir = Some (FsDir es)"
  shows "distinct (map fst (filter (\<lambda>f. is_file (snd f) \<and> \<not> is_hidden_or_metadata_path (fst f))
                                   (rglob_at fs root_dir)))"
    and "set (filter (\<lambda>f. is_file (snd f) \<and> \<not> is_hidden_or_metadata_path (fst f)) (rglob_at fs root_dir))
         = (\<lambda>q. (q, FsFile (the (file_at fs (root_dir @ q))))) ` visible_files fs root_dir"
proof -
  have w: "wf_fs (FsDir es)"
    using wf dir by (rule wf_fs_lookup)
  have r: "rglob_at fs root_dir = rglob (FsDir es)"
    by (simp add: rglob_at_def dir)
  show "distinct (map fst (filter (\<lambda>f. is_file (snd f) \<and> \<not> is_hidden_or_metadata_path (fst f))
                                   (rglob_at fs root_dir)))"
    unfolding r using distinct_rglob [OF w] by (rule distinct_map_filter)
  show "set (filter (\<lambda>f. is_file (snd f) \<and> \<not> is_hidden_or_metadata_path (fst f)) (rglob_at fs root_dir))
         = (\<lambda>q. (q, FsFile (the (file_at fs (root_dir @ q))))) ` visible_files fs root_dir"
  proof (rule set_eqI)
    fix e :: "path \<times> fsnode"
    obtain q x where e: "e = (q, x)" by (cases e)
    have "e \<in> set (filter (\<lambda>f. is_file (snd f) \<and> \<not> is_hidden_or_metadata_path (fst f)) (rglob_at fs root_dir))
          \<longleftrightarrow> q \<noteq> [] \<and> fs_lookup (FsDir es) q = Some x \<and> is_file x \<and> \<not> is_hidden_or_metadata_path q"
      unfolding r e using rglob_lookup [OF w, of q x] by auto
    also have "\<dots> \<longleftrightarrow> (\<exists>b. x = FsFile b \<and> file_at fs (root_dir @ q) = Some b) \<and> \<not> is_hidden_or_metadata_path q"
      using file_at_below_dir [OF dir, of q] by (cases x) (auto simp: is_file_def)
    also have "\<dots> \<longleftrightarrow> e \<in> (\<lambda>q. (q, FsFile (the (file_at fs (root_dir @ q))))) ` visible_files fs root_dir"
      unfolding e by (auto simp: visible_files_def)
    finally show "e \<in> set (filter (\<lambda>f. is_file (snd f) \<and> \<not> is_hidden_or_metadata_path (fst f)) (rglob_at fs root_dir))
          \<longleftrightarrow> e \<in> (\<lambda>q. (q, FsFile (the (file_at fs (root_dir @ q))))) ` visible_files fs root_dir" .
  qed
qed

lemma visible_count:
  assumes wf: "wf_fs fs" and dir: "fs_lookup fs root_dir = Some (FsDir es)"
  shows "length (filter (\<lambda>f. is_file (snd f) \<and> \<not> is_hidden_or_metadata_path (fst f)) (rglob_at fs root_dir))
         = card (visible_files fs root_dir)"
proof -
  let ?L = "filter (\<lambda>f. is_file (snd f) \<and> \<not> is_hidden_or_metadata_path (fst f)) (rglob_at fs root_dir)"
  have "fst ` set ?L = visible_files fs root_dir"
    unfolding visible_walk(2) [OF wf dir] by (simp add: image_image)
  then have "card (visible_files fs root_dir) = card (set (map fst ?L))"
    by simp
  also have "\<dots> = length (map fst ?L)"
    using visible_walk(1) [OF wf dir] by (rule distinct_card)
  finally show ?thesis by simp
qed

lemma visible_total_size:
  assumes wf: "wf_fs fs" and dir: "fs_lookup fs root_dir = Some (FsDir es)"
  shows "sum_list (map (\<lambda>f. st_size (snd f))
           (filter (\<lambda>f. is_file (snd f) \<and> \<not> is_hidden_or_metadata_path (fst f)) (rglob_at fs root_dir)))
         = (\<Sum>q \<in> visible_files fs root_dir. length (the (file_at fs (root_dir @ q))))"
proof -
  let ?L = "filter (\<lambda>f. is_file (snd f) \<and> \<not> is_hidden_or_metadata_path (fst f)) (rglob_at fs root_dir)"
  let ?g = "\<lambda>q. (q, FsFile (the (file_at fs (root_dir @ q))))"
  have d: "distinct ?L"
    using visible_walk(1) [OF wf dir] by (rule distinct_map [THEN iffD1, THEN conjunct1])
  have "sum_list (map (\<lambda>f. st_size (snd f)) ?L) = (\<Sum>f \<in> set ?L. st_size (snd f))"
    using d by (rule sum_list_distinct_conv_sum_set)
  also have "\<dots> = (\<Sum>f \<in> ?g ` visible_files fs root_dir. st_size (snd f))"
    by (simp only: visible_walk(2) [OF wf dir])
  also have "\<dots> = (\<Sum>q \<in> visible_files fs root_dir. st_size (snd (?g q)))"
    by (rule sum.reindex_cong [where l = ?g]) (auto simp: inj_on_def)
  also have "\<dots> = (\<Sum>q \<in> visible_files fs root_dir. length (the (file_at fs (root_dir @ q))))"
    by (simp add: st_size_def)
  finally show ?thesis .
qed

lemma safe_segment_Inr: "safe_segment v fld = Inr x \<Longrightarrow> x = v"
  by (auto simp: safe_segment_def split: if_splits)

lemma save_files_Inr:
  assumes "save_files fs partner_id dataset_name files = (Inr p, fs')"
  shows "p = BASE_PATH @ [partner_id, dataset_name]
         \<and> safe_segment partner_id ''partner_id'' = Inr partner_id
         \<and> safe_segment dataset_name ''dataset_name'' = Inr dataset_name
         \<and> (\<exists>fs1. mkdir_p fs p = Inr fs1 \<and> save_loop p fs1 files = (Inr (), fs'))"
proof -
  from assms obtain a where a: "safe_segment partner_id ''partner_id'' = Inr a"
    by (auto simp: save_files_def split: sum.splits)
  from assms a obtain b where b: "safe_segment dataset_name ''dataset_name'' = Inr b"
    by (auto simp: save_files_def split: sum.splits)
  have ab: "a = partner_id" "b = dataset_name"
    using a b by (auto dest: safe_segment_Inr)
  from assms a b obtain fs1 where m: "py_mkdir fs (BASE_PATH @ [a, b]) = Inr fs1"
    by (auto simp: save_files_def Let_def split: sum.splits)
  from assms a b m have "p = BASE_PATH @ [a, b]" "save_loop (BASE_PATH @ [a, b]) fs1 files = (Inr (), fs')"
    by (auto simp: save_files_def Let_def split: sum.splits prod.splits)
  with a b ab py_mkdir_Inr [OF m] show ?thesis
    by auto
qed

lemma save_files_wf:
  assumes "save_files fs partner_id dataset_name files = (r, fs')" and "wf_fs fs"
  shows "wf_fs fs'"
proof -
  consider "fs' = fs"
    | fs1 r' where "mkdir_p fs (BASE_PATH @ [partner_id, dataset_name]) = Inr fs1"
        "save_loop (BASE_PATH @ [partner_id, dataset_name]) fs1 files = (r', fs')"
    using assms(1)
    by (auto simp: save_files_def Let_def split: sum.splits prod.splits dest!: safe_segment_Inr py_mkdir_Inr)
  then show ?thesis
  proof cases
    case 1
    with assms(2) show ?thesis by simp
  next
    case 2
    from save_loop_wf [OF 2(2) wf_fs_mkdir_p [OF 2(1) assms(2)]] show ?thesis .
  qed
qed


lemma upload_after_save:
  assumes "save_files (disk w) partner_id dataset_name files = (Inr p, fs')"
  shows "upload w dataset_id now partner_id dataset_name files =
           (if filter (\<lambda>f. is_file (snd f) \<and> \<not> is_hidden_or_metadata_path (fst f)) (rglob_at fs' p) = []
            then (Inl no_uploadable_files, w\<lparr>disk := fs'\<rparr>)
            else (Inr dataset_id,
                  \<lparr>disk = fs',
                   db = db w @ [\<lparr>ds_id = dataset_id, ds_partner_id = partner_id,
                       ds_name = dataset_name, ds_type = ''mixed'', ds_path = join_sep p,
                       ds_file_count = length (filter (\<lambda>f. is_file (snd f) \<and> \<not> is_hidden_or_metadata_path (fst f)) (rglob_at fs' p)),
                       ds_total_size_bytes = sum_list (map (\<lambda>f. st_size (snd f))
                          (filter (\<lambda>f. is_file (snd f) \<and> \<not> is_hidden_or_metadata_path (fst f)) (rglob_at fs' p))),
                       ds_uploaded_at = now\<rparr>]\<rparr>))"
  by (simp add: upload_def assms Let_def no_uploadable_files_def)

lemma upload_saved:
  assumes "fst (upload w dataset_id now partner_id dataset_name files) = Inl no_uploadable_files
           \<or> (\<exists>r. fst (upload w dataset_id now partner_id dataset_name files) = Inr r)"
  shows "\<exists>p fs'. save_files (disk w) partner_id dataset_name files = (Inr p, fs')"
proof (cases "save_files (disk w) partner_id dataset_name files")
  case (Pair r fs')
  show ?thesis
  proof (cases r)
    case (Inl e)
    with Pair assms show ?thesis
      by (cases e) (auto simp: upload_def no_uploadable_files_def)
  next
    case (Inr p)
    with Pair show ?thesis by simp
  qed
qed

lemma save_files_root_is_dir:
  assumes "save_files fs partner_id dataset_name files = (Inr p, fs')"
  shows "\<exists>es. fs_lookup fs' p = Some (FsDir es)"
proof -
  from save_files_Inr [OF assms] obtain fs1 where
    m: "mkdir_p fs p = Inr fs1" and l: "save_loop p fs1 files = (Inr (), fs')"
    by blast
  from mkdir_p_is_dir [OF m] obtain es1 where "fs_lookup fs1 p = Some (FsDir es1)" ..
  from save_loop_keeps_dirs [OF l this] show ?thesis .
qed

lemma save_files_visible:
  assumes "save_files fs partner_id dataset_name files = (Inr p, fs')"
  shows "visible_files fs' p = visible_files fs p \<union> uploaded_paths files"
proof -
  from save_files_Inr [OF assms] obtain fs1 where
    m: "mkdir_p fs p = Inr fs1" and l: "save_loop p fs1 files = (Inr (), fs')"
    by blast
  have "file_at fs' (p @ q) \<noteq> None \<longleftrightarrow> file_at fs (p @ q) \<noteq> None \<or> q \<in> uploaded_paths files" for q
    using save_loop_files [OF l, of "p @ q"] by (auto simp: file_at_mkdir_p [OF m])
  moreover have "\<not> is_hidden_or_metadata_path q" if "q \<in> uploaded_paths files" for q
    using that by (auto simp: uploaded_paths_def)
  ultimately show ?thesis
    by (auto simp: visible_files_def)
qed

lemma nothing_uploadable_iff: "uploaded_paths files = {} \<longleftrightarrow> list_all (\<lambda>f. \<not> uploadable f) files"
  by (auto simp: uploaded_paths_def uploadable_def list_all_iff split: sum.splits)

lemma walk_empty_iff:
  assumes wf: "wf_fs fs" and dir: "fs_lookup fs root_dir = Some (FsDir es)"
  shows "filter (\<lambda>f. is_file (snd f) \<and> \<not> is_hidden_or_metadata_path (fst f)) (rglob_at fs root_dir) = []
         \<longleftrightarrow> visible_files fs root_dir = {}"
proof -
  let ?L = "filter (\<lambda>f. is_file (snd f) \<and> \<not> is_hidden_or_metadata_path (fst f)) (rglob_at fs root_dir)"
  have "?L = [] \<longleftrightarrow> set ?L = {}" by (rule set_empty [symmetric])
  also have "\<dots> \<longleftrightarrow> visible_files fs root_dir = {}"
    by (simp only: visible_walk(2) [OF wf dir] image_is_empty)
  finally show ?thesis .
qed

text \<open>
  Claim C8. On a disk with one entry per name, whenever \<open>upload\<close> succeeds the row it
  inserts carries the number and the total size of the regular files with a non-hidden
  relative path that are below the dataset root on the disk as the request leaves it; and
  these files are the ones that were there before the request together with the
  uploadable files submitted, so files of earlier uploads into the same root are counted.
\<close>

theorem C8_manifest_is_the_disk_walk:
  assumes "wf_fs (disk w)"
    and "upload w dataset_id now partner_id dataset_name files = (Inr r, w')"
  shows "\<exists>d. db w' = db w @ [d]
     \<and> ds_file_count d = card (visible_files (disk w') (BASE_PATH @ [partner_id, dataset_name]))
     \<and> ds_total_size_bytes d =
         (\<Sum>q \<in> visible_files (disk w') (BASE_PATH @ [partner_id, dataset_name]).
            length (the (file_at (disk w') ((BASE_PATH @ [partner_id, dataset_name]) @ q))))
     \<and> visible_files (disk w') (BASE_PATH @ [partner_id, dataset_name])
         = visible_files (disk w) (BASE_PATH @ [partner_id, dataset_name]) \<union> uploaded_paths files"
proof -
  from assms(2) have "\<exists>r. fst (upload w dataset_id now partner_id dataset_name files) = Inr r"
    by simp
  then obtain p fs' where s: "save_files (disk w) partner_id dataset_name files = (Inr p, fs')"
    using upload_saved by blast
  have p: "p = BASE_PATH @ [partner_id, dataset_name]"
    using save_files_Inr [OF s] by simp
  have wf': "wf_fs fs'"
    using s assms(1) by (rule save_files_wf)
  obtain es where dir: "fs_lookup fs' p = Some (FsDir es)"
    using save_files_root_is_dir [OF s] ..
  let ?L = "filter (\<lambda>f. is_file (snd f) \<and> \<not> is_hidden_or_metadata_path (fst f)) (rglob_at fs' p)"
  from assms(2) have ne: "?L \<noteq> []"
    by (auto simp: upload_after_save [OF s] split: if_splits)
  with assms(2) have w': "disk w' = fs'"
    and d: "db w' = db w @ [\<lparr>ds_id = dataset_id, ds_partner_id = partner_id,
                       ds_name = dataset_name, ds_type = ''mixed'', ds_path = join_sep p,
                       ds_file_count = length ?L,
                       ds_total_size_bytes = sum_list (map (\<lambda>f. st_size (snd f)) ?L),
                       ds_uploaded_at = now\<rparr>]"
    by (auto simp: upload_after_save [OF s])
  show ?thesis
    unfolding d w' p [symmetric]
    using visible_count [OF wf' dir] visible_total_size [OF wf' dir] save_files_visible [OF s]
    by simp
qed

text \<open>
  Claim C3, as amended. When the submitted files have been written without an exception,
  \<open>upload\<close> answers with the no-uploadable-files error exactly when no regular file with a
  non-hidden relative path is below the dataset root on disk afterwards. If the root held
  no such file before the request, that is exactly when none of the submitted files is
  uploadable; if it held one, the request succeeds whatever was submitted. A row is only
  ever inserted with a positive file count.
\<close>

theorem C3_rejects_iff_nothing_visible_on_disk:
  assumes "wf_fs (disk w)"
    and "save_files (disk w) partner_id dataset_name files = (Inr p, fs')"
  shows "(fst (upload w dataset_id now partner_id dataset_name files) = Inl no_uploadable_files
            \<longleftrightarrow> visible_files fs' p = {})
       \<and> (visible_files (disk w) p = {} \<longrightarrow>
            (fst (upload w dataset_id now partner_id dataset_name files) = Inl no_uploadable_files
               \<longleftrightarrow> list_all (\<lambda>f. \<not> uploadable f) files))
       \<and> (visible_files (disk w) p \<noteq> {} \<longrightarrow>
            (\<exists>r. fst (upload w dataset_id now partner_id dataset_name files) = Inr r))
       \<and> (\<forall>r w'. upload w dataset_id now partner_id dataset_name files = (Inr r, w') \<longrightarrow>
            (\<exists>d. db w' = db w @ [d] \<and> 0 < ds_file_count d))"
proof -
  have wf': "wf_fs fs'"
    using assms(2,1) by (rule save_files_wf)
  obtain es where dir: "fs_lookup fs' p = Some (FsDir es)"
    using save_files_root_is_dir [OF assms(2)] ..
  have a: "fst (upload w dataset_id now partner_id dataset_name files) = Inl no_uploadable_files
            \<longleftrightarrow> visible_files fs' p = {}"
    using walk_empty_iff [OF wf' dir] by (simp add: upload_after_save [OF assms(2)])
  have b: "visible_files fs' p = {} \<longleftrightarrow> list_all (\<lambda>f. \<not> uploadable f) files"
    if "visible_files (disk w) p = {}"
    using that by (simp add: save_files_visible [OF assms(2)] nothing_uploadable_iff)
  have c: "\<exists>d. db w' = db w @ [d] \<and> 0 < ds_file_count d"
    if "upload w dataset_id now partner_id dataset_name files = (Inr r, w')" for r w'
    using that by (auto simp: upload_after_save [OF assms(2)] split: if_splits)
  have d: "\<exists>r. fst (upload w dataset_id now partner_id dataset_name files) = Inr r"
    if "visible_files (disk w) p \<noteq> {}"
  proof -
    from that have "visible_files fs' p \<noteq> {}"
      by (simp add: save_files_visible [OF assms(2)])
    with a have "fst (upload w dataset_id now partner_id dataset_name files) \<noteq> Inl no_uploadable_files"
      by simp
    then show ?thesis
      by (auto simp: upload_after_save [OF assms(2)] split: if_splits)
  qed
  from a b c d show ?thesis
    by blast
qed

text \<open>
  Claim C10. Whenever \<open>upload\<close> answers with the no-uploadable-files error, the dataset root
  \<open>BASE_PATH/partner_id/dataset_name\<close> is a directory on the disk it leaves and the table
  is unchanged. In particular, when the root did not exist, the two names are valid,
  nothing blocks its creation and every submitted file is hidden or metadata, the request
  is refused with that error and leaves the root behind as a new, empty directory.
\<close>

theorem C10_root_directory_is_left_behind:
  "(fst (upload w dataset_id now partner_id dataset_name files) = Inl no_uploadable_files \<longrightarrow>
      (\<exists>es. fs_lookup (disk (snd (upload w dataset_id now partner_id dataset_name files)))
              (BASE_PATH @ [partner_id, dataset_name]) = Some (FsDir es))
      \<and> db (snd (upload w dataset_id now partner_id dataset_name files)) = db w)
   \<and> (safe_segment partner_id ''partner_id'' = Inr partner_id
      \<and> safe_segment dataset_name ''dataset_name'' = Inr dataset_name
      \<and> fs_lookup (disk w) (BASE_PATH @ [partner_id, dataset_name]) = None
      \<and> mkdir_p (disk w) (BASE_PATH @ [partner_id, dataset_name]) = Inr fs1
      \<and> list_all (\<lambda>f. \<exists>rel. storage_safe_relpath (uf_filename f) = Inr rel
                           \<and> is_hidden_or_metadata_path rel) files \<longrightarrow>
      upload w dataset_id now partner_id dataset_name files
        = (Inl no_uploadable_files, w\<lparr>disk := fs1\<rparr>)
      \<and> fs_lookup fs1 (BASE_PATH @ [partner_id, dataset_name]) = Some (FsDir []))"
proof (intro conjI impI)
  assume a: "fst (upload w dataset_id now partner_id dataset_name files) = Inl no_uploadable_files"
  then obtain p fs' where s: "save_files (disk w) partner_id dataset_name files = (Inr p, fs')"
    using upload_saved by blast
  have p: "p = BASE_PATH @ [partner_id, dataset_name]"
    using save_files_Inr [OF s] by simp
  from a have u: "upload w dataset_id now partner_id dataset_name files
                  = (Inl no_uploadable_files, w\<lparr>disk := fs'\<rparr>)"
    by (auto simp: upload_after_save [OF s] split: if_splits)
  show "\<exists>es. fs_lookup (disk (snd (upload w dataset_id now partner_id dataset_name files)))
              (BASE_PATH @ [partner_id, dataset_name]) = Some (FsDir es)"
    using save_files_root_is_dir [OF s] by (simp add: u p)
  show "db (snd (upload w dataset_id now partner_id dataset_name files)) = db w"
    by (simp add: u)
next
  assume h: "safe_segment partner_id ''partner_id'' = Inr partner_id
      \<and> safe_segment dataset_name ''dataset_name'' = Inr dataset_name
      \<and> fs_lookup (disk w) (BASE_PATH @ [partner_id, dataset_name]) = None
      \<and> mkdir_p (disk w) (BASE_PATH @ [partner_id, dataset_name]) = Inr fs1
      \<and> list_all (\<lambda>f. \<exists>rel. storage_safe_relpath (uf_filename f) = Inr rel
                           \<and> is_hidden_or_metadata_path rel) files"
  let ?p = "BASE_PATH @ [partner_id, dataset_name]"
  have nn: "\<not> has_nul ?p"
    using h by (auto simp: has_nul_def BASE_PATH_def safe_segment_def NUL_def split: if_splits)
  have m: "py_mkdir (disk w) ?p = Inr fs1"
    using h nn by (simp add: py_mkdir_def)
  have l: "save_loop ?p fs1 files = (Inr (), fs1)"
    using h by (simp add: save_loop_nothing_uploadable)
  have s: "save_files (disk w) partner_id dataset_name files = (Inr ?p, fs1)"
    using h m l by (simp add: save_files_def Let_def)
  have e: "fs_lookup fs1 ?p = Some (FsDir [])"
    using h mkdir_p_creates_empty by blast
  then show "fs_lookup fs1 (BASE_PATH @ [partner_id, dataset_name]) = Some (FsDir [])" .
  from e show "upload w dataset_id now partner_id dataset_name files
        = (Inl no_uploadable_files, w\<lparr>disk := fs1\<rparr>)"
    by (simp add: upload_after_save [OF s] rglob_at_def)
qed


text \<open>
  Claim C3 as stated fails where the root already holds a file of an earlier upload: a
  request that submits only metadata files succeeds and registers a row counting the old
  file.
\<close>

theorem C3_counterexample:
  "list_all (\<lambda>f. \<not> uploadable f) only_metadata
   \<and> fst (upload world_with_earlier_upload ''id2'' 9 ''p'' ''d'' only_metadata) = Inr ''id2''
   \<and> map ds_file_count (db (snd (upload world_with_earlier_upload ''id2'' 9 ''p'' ''d'' only_metadata))) = [1]"
  by code_simp

theorem C3_witness:
  "wf_fs (disk fresh_world)
   \<and> save_files (disk fresh_world) ''p'' ''d'' only_metadata
       = (Inr [''data'', ''raw'', ''p'', ''d''],
          FsDir [(''data'', FsDir [(''raw'', FsDir [(''p'', FsDir [(''d'', FsDir [])])])])])
   \<and> visible_files (disk fresh_world) [''data'', ''raw'', ''p'', ''d''] = {}
   \<and> list_all (\<lambda>f. \<not> uploadable f) only_metadata
   \<and> fst (upload fresh_world ''id1'' 7 ''p'' ''d'' only_metadata) = Inl no_uploadable_files
   \<and> visible_files (FsDir [(''data'', FsDir [(''raw'', FsDir [(''p'', FsDir [(''d'', FsDir [])])])])])
        [''data'', ''raw'', ''p'', ''d''] = {}
   \<and> wf_fs (disk world_with_earlier_upload)
   \<and> fst (upload world_with_earlier_upload ''id2'' 9 ''p'' ''d''
             [\<lparr>uf_filename = ''new.txt'', uf_bytes = ''hello''\<rparr>]) = Inr ''id2''
   \<and> (\<exists>d. db (snd (upload world_with_earlier_upload ''id2'' 9 ''p'' ''d''
                       [\<lparr>uf_filename = ''new.txt'', uf_bytes = ''hello''\<rparr>]))
             = db world_with_earlier_upload @ [d] \<and> 0 < ds_file_count d)
   \<and> [''old.txt''] \<in> visible_files (disk world_with_earlier_upload) [''data'', ''raw'', ''p'', ''d'']
   \<and> (\<exists>r. fst (upload world_with_earlier_upload ''id3'' 9 ''p'' ''d'' only_metadata) = Inr r)"
proof -
  let ?root = "[''data'', ''raw'', ''p'', ''d'']"
  let ?fs' = "FsDir [(''data'', FsDir [(''raw'', FsDir [(''p'', FsDir [(''d'', FsDir [])])])])]"
  have wf: "wf_fs (disk fresh_world)"
    by code_simp
  have s: "save_files (disk fresh_world) ''p'' ''d'' only_metadata = (Inr ?root, ?fs')"
    by code_simp
  have v: "visible_files (disk fresh_world) ?root = {}"
    by (simp add: visible_files_def file_at_def fresh_world_def)
  have n: "list_all (\<lambda>f. \<not> uploadable f) only_metadata"
    by code_simp
  note c = C3_rejects_iff_nothing_visible_on_disk [OF wf s, of "''id1''" 7]
  from c v n have u: "fst (upload fresh_world ''id1'' 7 ''p'' ''d'' only_metadata) = Inl no_uploadable_files"
    by blast
  with c have e: "visible_files ?fs' ?root = {}"
    by blast
  let ?new = "[\<lparr>uf_filename = ''new.txt'', uf_bytes = ''hello''\<rparr>]"
  let ?u = "upload world_with_earlier_upload ''id2'' 9 ''p'' ''d'' ?new"
  have wf2: "wf_fs (disk world_with_earlier_upload)"
    by code_simp
  have s2: "save_files (disk world_with_earlier_upload) ''p'' ''d'' ?new
            = (Inr ?root,
               FsDir [(''data'', FsDir [(''raw'', FsDir [(''p'', FsDir [(''d'',
                 FsDir [(''old.txt'', FsFile ''abc''), (''new.txt'', FsFile ''hello'')])])])])])"
    by code_simp
  have r2: "fst ?u = Inr ''id2''"
    by code_simp
  then have "?u = (Inr ''id2'', snd ?u)"
    by (metis prod.collapse)
  with C3_rejects_iff_nothing_visible_on_disk [OF wf2 s2, of "''id2''" 9]
  have d: "\<exists>d. db (snd ?u) = db world_with_earlier_upload @ [d] \<and> 0 < ds_file_count d"
    by blast
  have s3: "save_files (disk world_with_earlier_upload) ''p'' ''d'' only_metadata
            = (Inr ?root, disk world_with_earlier_upload)"
    by code_simp
  have "file_at (disk world_with_earlier_upload) (?root @ [''old.txt'']) \<noteq> None
        \<and> \<not> is_hidden_or_metadata_path [''old.txt'']"
    by code_simp
  then have o: "[''old.txt''] \<in> visible_files (disk world_with_earlier_upload) ?root"
    by (simp add: visible_files_def)
  then have "visible_files (disk world_with_earlier_upload) ?root \<noteq> {}"
    by blast
  with C3_rejects_iff_nothing_visible_on_disk [OF wf2 s3, of "''id3''" 9]
  have k: "\<exists>r. fst (upload world_with_earlier_upload ''id3'' 9 ''p'' ''d'' only_metadata) = Inr r"
    by blast
  from wf s v n u e wf2 r2 d o k show ?thesis
    by blast
qed

theorem C8_witness:
  "wf_fs (disk world_with_earlier_upload)
   \<and> fst (upload world_with_earlier_upload ''id2'' 9 ''p'' ''d'' [\<lparr>uf_filename = ''new.txt'', uf_bytes = ''hello''\<rparr>])
       = Inr ''id2''
   \<and> (\<exists>d. db (snd (upload world_with_earlier_upload ''id2'' 9 ''p'' ''d''
                      [\<lparr>uf_filename = ''new.txt'', uf_bytes = ''hello''\<rparr>])) = [d]
          \<and> ds_file_count d = 2 \<and> ds_total_size_bytes d = 8
          \<and> ds_file_count d
              = card (visible_files (disk (snd (upload world_with_earlier_upload ''id2'' 9 ''p'' ''d''
                        [\<lparr>uf_filename = ''new.txt'', uf_bytes = ''hello''\<rparr>])))
                     (BASE_PATH @ [''p'', ''d''])))"
proof -
  let ?u = "upload world_with_earlier_upload ''id2'' 9 ''p'' ''d'' [\<lparr>uf_filename = ''new.txt'', uf_bytes = ''hello''\<rparr>]"
  have wf: "wf_fs (disk world_with_earlier_upload)"
    by code_simp
  have r: "fst ?u = Inr ''id2''"
    by code_simp
  have c: "map ds_file_count (db (snd ?u)) = [2]" "map ds_total_size_bytes (db (snd ?u)) = [8]"
    by code_simp+
  have e: "db world_with_earlier_upload = []"
    by code_simp
  from r have "?u = (Inr ''id2'', snd ?u)"
    by (metis prod.collapse)
  from C8_manifest_is_the_disk_walk [OF wf this] obtain d where
    d: "db (snd ?u) = db world_with_earlier_upload @ [d]"
       "ds_file_count d = card (visible_files (disk (snd ?u)) (BASE_PATH @ [''p'', ''d'']))"
    by blast
  from d(1) e c have "db (snd ?u) = [d]" "ds_file_count d = 2" "ds_total_size_bytes d = 8"
    by simp_all
  with wf r d(2) show ?thesis
    by blast
qed

theorem C10_witness:
  "fs_lookup (disk fresh_world) (BASE_PATH @ [''p'', ''d'']) = None
   \<and> fst (upload fresh_world ''id1'' 7 ''p'' ''d'' only_metadata) = Inl no_uploadable_files
   \<and> (\<exists>es. fs_lookup (disk (snd (upload fresh_world ''id1'' 7 ''p'' ''d'' only_metadata)))
              (BASE_PATH @ [''p'', ''d'']) = Some (FsDir es))
   \<and> db (snd (upload fresh_world ''id1'' 7 ''p'' ''d'' only_metadata)) = db fresh_world
   \<and> upload fresh_world ''id1'' 7 ''p'' ''d'' only_metadata
       = (Inl no_uploadable_files,
          fresh_world\<lparr>disk := FsDir [(''data'', FsDir [(''raw'', FsDir [(''p'', FsDir [(''d'', FsDir [])])])])]\<rparr>)"
proof -
  let ?fs1 = "FsDir [(''data'', FsDir [(''raw'', FsDir [(''p'', FsDir [(''d'', FsDir [])])])])]"
  have a: "fs_lookup (disk fresh_world) (BASE_PATH @ [''p'', ''d'']) = None"
    by code_simp
  have s: "safe_segment ''p'' ''partner_id'' = Inr ''p''" "safe_segment ''d'' ''dataset_name'' = Inr ''d''"
    by code_simp+
  have m: "mkdir_p (disk fresh_world) (BASE_PATH @ [''p'', ''d'']) = Inr ?fs1"
    by code_simp
  have h: "list_all (\<lambda>f. \<exists>rel. storage_safe_relpath (uf_filename f) = Inr rel
                               \<and> is_hidden_or_metadata_path rel) only_metadata"
  proof -
    have "storage_safe_relpath ''.DS_Store'' = Inr [''.DS_Store'']
          \<and> is_hidden_or_metadata_path [''.DS_Store'']
          \<and> storage_safe_relpath ''photos/._a.jpg'' = Inr [''photos'', ''._a.jpg'']
          \<and> is_hidden_or_metadata_path [''photos'', ''._a.jpg'']"
      by code_simp
    then show ?thesis
      by (simp add: only_metadata_def)
  qed
  note c = C10_root_directory_is_left_behind [of fresh_world "''id1''" 7 "''p''" "''d''" only_metadata ?fs1]
  from c s a m h have u: "upload fresh_world ''id1'' 7 ''p'' ''d'' only_metadata
       = (Inl no_uploadable_files, fresh_world\<lparr>disk := ?fs1\<rparr>)"
    by blast
  then have f: "fst (upload fresh_world ''id1'' 7 ''p'' ''d'' only_metadata) = Inl no_uploadable_files"
    by simp
  with c have "(\<exists>es. fs_lookup (disk (snd (upload fresh_world ''id1'' 7 ''p'' ''d'' only_metadata)))
              (BASE_PATH @ [''p'', ''d'']) = Some (FsDir es))
      \<and> db (snd (upload fresh_world ''id1'' 7 ''p'' ''d'' only_metadata)) = db fresh_world"
    by blast
  with a f u show ?thesis
    by blast
qed

section \<open>The directory tree: lemmas and properties\<close>

lemma dirs_first_then_name_key: "dirs_first_then_name a b \<longleftrightarrow> node_key a \<le> node_key b"
  by (auto simp: dirs_first_then_name_def node_key_def less_eq_prod_def)

lemma ordered_iff_sorted_keys: "sorted_wrt dirs_first_then_name cs \<longleftrightarrow> sorted (map node_key cs)"
  by (simp add: sorted_map dirs_first_then_name_key [abs_def])

declare build_dir_node.simps [simp del]

lemma build_dir_node_shape:
  "\<exists>cs. fst (build_dir_node md me p es d st) = Directory (if p \<noteq> [] then path_name p else []) (rel_str p) cs"
  by (simp add: build_dir_node.simps split: prod.splits)

lemma node_key_built_dir:
  "node_key (fst (build_dir_node md me (p @ [n]) es d st)) = child_key (n, FsDir es)"
proof -
  obtain cs where "fst (build_dir_node md me (p @ [n]) es d st)
      = Directory (if p @ [n] \<noteq> [] then path_name (p @ [n]) else []) (rel_str (p @ [n])) cs"
    using build_dir_node_shape by blast
  then show ?thesis
    by (simp add: node_key_def child_key_def is_dir_def path_name_def)
qed

lemma tree_ordered:
  shows "all_ordered (fst (build_dir_node md me p es d st))"
    and "sorted (map child_key cs) \<Longrightarrow> sorted (map node_key acc) \<Longrightarrow>
         (\<forall>a \<in> set acc. \<forall>c \<in> set cs. node_key a \<le> child_key c) \<Longrightarrow>
         list_all all_ordered acc \<Longrightarrow>
         sorted (map node_key (fst (build_children md me p cs d acc st)))
         \<and> list_all all_ordered (fst (build_children md me p cs d acc st))"
proof (induction md me p es d st and md me p cs d acc st rule: build_dir_node_build_children.induct)
  case (1 max_depth max_entries dir_path entries depth st)
  show ?case
  proof (cases "depth \<ge> max_depth \<or> truncated st")
    case True
    then show ?thesis by (simp add: build_dir_node.simps)
  next
    case False
    obtain cs st' where b: "build_children max_depth max_entries dir_path
                              (sort_key child_key entries) depth [] st = (cs, st')"
      by (cases "build_children max_depth max_entries dir_path (sort_key child_key entries) depth [] st")
    have "sorted (map node_key cs) \<and> list_all all_ordered cs"
      using 1 [OF False] b by simp
    with False b show ?thesis
      by (simp add: build_dir_node.simps ordered_iff_sorted_keys)
  qed
next
  case (2 max_depth max_entries dir_path depth acc st)
  then show ?case by simp
next
  case (3 max_depth max_entries dir_path child siblings depth acc st)
  let ?rel = "dir_path @ [fst child]"
  have sib: "sorted (map child_key siblings)"
    and le: "\<forall>c \<in> set siblings. child_key child \<le> child_key c"
    and acc_le: "\<forall>a \<in> set acc. \<forall>c \<in> set siblings. node_key a \<le> child_key c"
    and acc_child: "\<forall>a \<in> set acc. node_key a \<le> child_key child"
    using "3.prems"(1,3) by auto
  show ?case
  proof (cases "is_hidden_or_metadata_path ?rel")
    case True
    with "3.IH"(1) [OF refl True sib "3.prems"(2) acc_le "3.prems"(4)] show ?thesis
      by simp
  next
    case vis: False
    show ?thesis
    proof (cases "entries_seen st \<ge> max_entries")
      case True
      with vis "3.prems" show ?thesis by simp
    next
      case room: False
      show ?thesis
      proof (cases "snd child")
        case (FsFile b)
        let ?node = "File (fst child) (join_sep ?rel) (length b)"
        have k: "node_key ?node = child_key child"
          using FsFile by (simp add: node_key_def child_key_def is_dir_def)
        have s: "sorted (map node_key (acc @ [?node]))"
          using "3.prems"(2) acc_child k by (simp add: sorted_append)
        have l: "\<forall>a \<in> set (acc @ [?node]). \<forall>c \<in> set siblings. node_key a \<le> child_key c"
          using acc_le le k by auto
        have o: "list_all all_ordered (acc @ [?node])"
          using "3.prems"(4) by simp
        from "3.IH"(2) [OF refl vis room FsFile sib s l o] vis room FsFile show ?thesis
          by simp
      next
        case (FsDir es)
        obtain node st' where b: "build_dir_node max_depth max_entries ?rel es (depth + 1)
                                    (st\<lparr>entries_seen := entries_seen st + 1\<rparr>) = (node, st')"
          by (cases "build_dir_node max_depth max_entries ?rel es (depth + 1)
                        (st\<lparr>entries_seen := entries_seen st + 1\<rparr>)")
        have on: "all_ordered node"
          using "3.IH"(3) [OF refl vis room FsDir] b by simp
        have k: "node_key node = child_key child"
          using node_key_built_dir [of max_depth max_entries dir_path "fst child" es "depth + 1"
                  "st\<lparr>entries_seen := entries_seen st + 1\<rparr>"] b FsDir
          by (cases child) simp
        have s: "sorted (map node_key (acc @ [node]))"
          using "3.prems"(2) acc_child k by (simp add: sorted_append)
        have l: "\<forall>a \<in> set (acc @ [node]). \<forall>c \<in> set siblings. node_key a \<le> child_key c"
          using acc_le le k by auto
        have o: "list_all all_ordered (acc @ [node])"
          using "3.prems"(4) on by simp
        from "3.IH"(4) [OF refl vis room FsDir b [symmetric] sib s l o] vis room FsDir b show ?thesis
          by simp
      qed
    qed
  qed
qed









lemma dataset_tree_Inr:
  assumes "dataset_tree w partner_id dataset_name = Inr r"
  shows "\<exists>es. tr_tree r = fst (build_dir_node 5 2000 [] es 0 \<lparr>truncated = False, entries_seen = 0\<rparr>)
              \<and> tr_entries_returned r
                  = entries_seen (snd (build_dir_node 5 2000 [] es 0 \<lparr>truncated = False, entries_seen = 0\<rparr>))
              \<and> tr_truncated r
                  = truncated (snd (build_dir_node 5 2000 [] es 0 \<lparr>truncated = False, entries_seen = 0\<rparr>))"
proof -
  from assms obtain d where "get_dataset_by_partner_and_name_or_404 (db w) partner_id dataset_name = Inr d"
    by (auto simp: dataset_tree_def Let_def split: sum.splits)
  moreover from assms this obtain es where "fs_lookup (disk w) (Path (ds_path d)) = Some (FsDir es)"
    by (auto simp: dataset_tree_def Let_def split: option.splits fsnode.splits)
  ultimately have "r = \<lparr>tr_partner_id = partner_id, tr_dataset_name = dataset_name,
            tr_dataset_id = ds_id d, tr_root_path = rel_str [],
            tr_max_depth = 5, tr_max_entries = 2000,
            tr_entries_returned = entries_seen (snd (build_dir_node 5 2000 [] es 0 \<lparr>truncated = False, entries_seen = 0\<rparr>)),
            tr_truncated = truncated (snd (build_dir_node 5 2000 [] es 0 \<lparr>truncated = False, entries_seen = 0\<rparr>)),
            tr_tree = fst (build_dir_node 5 2000 [] es 0 \<lparr>truncated = False, entries_seen = 0\<rparr>)\<rparr>"
    using assms by (simp add: dataset_tree_def Let_def case_prod_beta)
  then show ?thesis
    by auto
qed




text \<open>
  Claim C7. In every directory node of a tree \<open>_build_dir_node\<close> returns, hence in the tree
  \<open>dataset_tree\<close> answers with, each child that is a directory comes before each child that
  is a file, and two children of the same kind are in the order of their lower-cased
  names.
\<close>

theorem C7_children_order:
  "all_ordered (fst (build_dir_node md me p es d st))
   \<and> (dataset_tree w partner_id dataset_name = Inr r \<longrightarrow> all_ordered (tr_tree r))"
proof (intro conjI impI)
  show "all_ordered (fst (build_dir_node md me p es d st))"
    by (rule tree_ordered(1))
  assume "dataset_tree w partner_id dataset_name = Inr r"
  then obtain es' where
    "tr_tree r = fst (build_dir_node 5 2000 [] es' 0 \<lparr>truncated = False, entries_seen = 0\<rparr>)"
    using dataset_tree_Inr by blast
  with tree_ordered(1) [of 5 2000 "[]" es' 0 "\<lparr>truncated = False, entries_seen = 0\<rparr>"]
  show "all_ordered (tr_tree r)"
    by simp
qed

text \<open>The entries \<open>b.txt\<close>, \<open>A_dir\<close> (a directory) and \<open>a.txt\<close> are listed as \<open>A_dir\<close>, \<open>a.txt\<close>,
  \<open>b.txt\<close>.\<close>

theorem C7_witness:
  "dataset_tree browsing_world ''p'' ''d''
     = Inr \<lparr>tr_partner_id = ''p'', tr_dataset_name = ''d'', tr_dataset_id = ''id1'',
            tr_root_path = [], tr_max_depth = 5, tr_max_entries = 2000,
            tr_entries_returned = 3, tr_truncated = False,
            tr_tree = Directory [] [] [Directory ''A_dir'' ''A_dir'' [], File ''a.txt'' ''a.txt'' 0,
                                       File ''b.txt'' ''b.txt'' 2]\<rparr>
   \<and> all_ordered (Directory [] [] [Directory ''A_dir'' ''A_dir'' [], File ''a.txt'' ''a.txt'' 0,
                                   File ''b.txt'' ''b.txt'' 2])"
proof -
  have r: "dataset_tree browsing_world ''p'' ''d''
     = Inr \<lparr>tr_partner_id = ''p'', tr_dataset_name = ''d'', tr_dataset_id = ''id1'',
            tr_root_path = [], tr_max_depth = 5, tr_max_entries = 2000,
            tr_entries_returned = 3, tr_truncated = False,
            tr_tree = Directory [] [] [Directory ''A_dir'' ''A_dir'' [], File ''a.txt'' ''a.txt'' 0,
                                       File ''b.txt'' ''b.txt'' 2]\<rparr>"
    by code_simp
  let ?tree = "Directory [] [] [Directory ''A_dir'' ''A_dir'' [], File ''a.txt'' ''a.txt'' 0,
                                File ''b.txt'' ''b.txt'' 2]"
  let ?r = "\<lparr>tr_partner_id = ''p'', tr_dataset_name = ''d'', tr_dataset_id = ''id1'',
            tr_root_path = [], tr_max_depth = 5, tr_max_entries = 2000,
            tr_entries_returned = 3, tr_truncated = False, tr_tree = ?tree\<rparr>"
  from C7_children_order [of 5 2000 "[]" "[]" 0 "\<lparr>truncated = False, entries_seen = 0\<rparr>"
         browsing_world "''p''" "''d''" ?r] r
  have t: "all_ordered (tr_tree ?r)"
    by blast
  have "tr_tree ?r = ?tree"
    by simp
  with t have "all_ordered ?tree"
    by (simp only:)
  with r show ?thesis
    by blast
qed

section \<open>The thumbnail: lemmas and properties\<close>



lemma rat_frac_le:
  fixes a b c d :: int
  assumes "0 < b" "0 < d"
  shows "(of_int a / of_int b \<le> (of_int c / of_int d :: rat)) \<longleftrightarrow> a * d \<le> c * b"
proof -
  have "(of_int a / of_int b \<le> (of_int c / of_int d :: rat))
        \<longleftrightarrow> (of_int a * of_int d \<le> (of_int c * of_int b :: rat))"
    using assms by (simp add: field_simps)
  also have "\<dots> \<longleftrightarrow> (of_int (a * d) \<le> (of_int (c * b) :: rat))"
    by simp
  also have "\<dots> \<longleftrightarrow> a * d \<le> c * b"
    by (rule of_int_le_iff)
  finally show ?thesis .
qed

lemma rat_mul_frac_le:
  fixes y w h b :: int
  assumes "0 < h"
  shows "(of_int y * (of_int w / of_int h) \<le> (of_int b :: rat)) \<longleftrightarrow> y * w \<le> b * h"
proof -
  have "(of_int y * (of_int w / of_int h) \<le> (of_int b :: rat))
        \<longleftrightarrow> (of_int y * of_int w \<le> (of_int b * of_int h :: rat))"
    using assms by (simp add: field_simps)
  also have "\<dots> \<longleftrightarrow> (of_int (y * w) \<le> (of_int (b * h) :: rat))"
    by simp
  also have "\<dots> \<longleftrightarrow> y * w \<le> b * h"
    by (rule of_int_le_iff)
  finally show ?thesis .
qed

lemma rat_div_frac_le:
  fixes x w h b :: int
  assumes "0 < w" "0 < h"
  shows "(of_int x / (of_int w / of_int h) \<le> (of_int b :: rat)) \<longleftrightarrow> x * h \<le> b * w"
proof -
  have "(of_int x / (of_int w / of_int h) \<le> (of_int b :: rat))
        \<longleftrightarrow> (of_int x * of_int h \<le> (of_int b * of_int w :: rat))"
    using assms by (simp add: field_simps)
  also have "\<dots> \<longleftrightarrow> (of_int (x * h) \<le> (of_int (b * w) :: rat))"
    by simp
  also have "\<dots> \<longleftrightarrow> x * h \<le> b * w"
    by (rule of_int_le_iff)
  finally show ?thesis .
qed


lemma round_aspect_le:
  assumes "r \<le> of_int b" and "1 \<le> b"
  shows "round_aspect r key \<le> b"
proof -
  have c: "\<lceil>r\<rceil> \<le> b"
    using assms(1) by (simp add: ceiling_le)
  have "\<lfloor>r\<rfloor> \<le> \<lceil>r\<rceil>"
    by (rule floor_le_ceiling)
  then have f: "\<lfloor>r\<rfloor> \<le> b"
    using c by (rule order_trans)
  show ?thesis
    unfolding round_aspect_def using c f assms(2) by (simp only: max.bounded_iff split: if_split) simp
qed

lemma pil_thumbnail_bounds:
  assumes "pil_thumbnail (x, y) img = Some img'"
  shows "img_mode img' = img_mode img \<and> img_transparency img' = img_transparency img
       \<and> (0 < x \<and> 0 < y \<longrightarrow> img_width img' \<le> x \<and> img_height img' \<le> y)
       \<and> (0 < img_width img \<and> 0 < img_height img \<longrightarrow>
             img_width img' \<le> img_width img \<and> img_height img' \<le> img_height img)"
proof (cases "int x \<ge> int (img_width img) \<and> int y \<ge> int (img_height img)")
  case True
  with assms have "img' = img"
    by (simp add: pil_thumbnail_def Let_def)
  with True show ?thesis
    by auto
next
  case nofit: False
  let ?w = "int (img_width img)" and ?h = "int (img_height img)"
  from assms nofit have nz: "?h \<noteq> 0" "int y \<noteq> 0"
    by (auto simp: pil_thumbnail_def Let_def split: if_splits)
  then have hpos: "0 < ?h" and ypos: "0 < int y"
    by simp_all
  let ?aspect = "(of_int ?w / of_int ?h :: rat)"
  let ?n1 = "round_aspect (of_int (int y) * ?aspect) (\<lambda>n. \<bar>?aspect - of_int n / of_int (int y)\<bar>)"
  let ?n2 = "round_aspect (of_int (int x) / ?aspect)
               (\<lambda>n. if n = 0 then 0 else \<bar>?aspect - of_int (int x) / of_int n\<bar>)"
  have "pil_thumbnail (x, y) img =
          (if int x \<ge> ?w \<and> int y \<ge> ?h then Some img
           else if ?h = 0 \<or> int y = 0 then None
           else if of_int (int x) / of_int (int y) \<ge> ?aspect
                then Some (img\<lparr>img_width := nat ?n1, img_height := nat (int y)\<rparr>)
                else Some (img\<lparr>img_width := nat (int x), img_height := nat ?n2\<rparr>))"
    by (simp only: pil_thumbnail_def Let_def fst_conv snd_conv)
  with assms nofit nz have unf:
    "(if of_int (int x) / of_int (int y) \<ge> ?aspect
      then Some (img\<lparr>img_width := nat ?n1, img_height := nat (int y)\<rparr>)
      else Some (img\<lparr>img_width := nat (int x), img_height := nat ?n2\<rparr>)) = Some img'"
    by (simp only: if_False simp_thms)
  show ?thesis
  proof (cases "of_int (int x) / of_int (int y) \<ge> ?aspect")
    case True
    from unf True have img': "img' = img\<lparr>img_width := nat ?n1, img_height := nat (int y)\<rparr>"
      by (simp only: if_True option.inject)
    have cross: "?w * int y \<le> int x * ?h"
      using True rat_frac_le [OF hpos ypos, of ?w "int x"] by simp
    have a: "?n1 \<le> int x" if "0 < x"
    proof (rule round_aspect_le)
      show "of_int (int y) * ?aspect \<le> (of_int (int x) :: rat)"
        using cross by (simp only: rat_mul_frac_le [OF hpos]) (simp add: mult.commute)
      show "1 \<le> int x" using that by simp
    qed
    have b: "?n1 \<le> ?w \<and> int y \<le> ?h" if wpos: "0 < img_width img"
    proof -
      have yh: "int y \<le> ?h"
      proof (rule ccontr)
        assume "\<not> int y \<le> ?h"
        then have lt: "?h < int y" by simp
        with nofit have "int x < ?w" by simp
        then have "int x * ?h < ?w * ?h"
          using hpos by simp
        also have "\<dots> < ?w * int y"
          using lt wpos by simp
        finally show False
          using cross by simp
      qed
      have "?n1 \<le> ?w"
      proof (rule round_aspect_le)
        have "int y * ?w \<le> ?h * ?w"
          by (rule mult_right_mono [OF yh]) simp
        also have "\<dots> = ?w * ?h"
          by (rule mult.commute)
        finally show "of_int (int y) * ?aspect \<le> (of_int ?w :: rat)"
          by (simp only: rat_mul_frac_le [OF hpos])
        show "1 \<le> ?w" using wpos by simp
      qed
      with yh show ?thesis by simp
    qed
    from a b show ?thesis
      by (auto simp: img')
  next
    case False
    from unf False have img': "img' = img\<lparr>img_width := nat (int x), img_height := nat ?n2\<rparr>"
      by (simp only: if_False option.inject)
    from False have cross: "int x * ?h < ?w * int y"
      using rat_frac_le [OF hpos ypos, of ?w "int x"] by simp
    have wpos: "0 < ?w"
    proof (rule ccontr)
      assume "\<not> 0 < ?w"
      then have "?w = 0" by simp
      with cross have "int x * ?h < 0" by simp
      moreover have "0 \<le> int x * ?h" by simp
      ultimately show False by linarith
    qed
    have a: "?n2 \<le> int y"
    proof (rule round_aspect_le)
      have "int x * ?h \<le> int y * ?w"
        using cross by (simp add: mult.commute)
      then show "of_int (int x) / ?aspect \<le> (of_int (int y) :: rat)"
        by (simp only: rat_div_frac_le [OF wpos hpos])
      show "1 \<le> int y" using ypos by simp
    qed
    have xw: "int x \<le> ?w"
    proof (rule ccontr)
      assume "\<not> int x \<le> ?w"
      then have lt: "?w < int x" by simp
      with nofit have "int y < ?h" by simp
      then have "?w * int y < ?w * ?h"
        using wpos by simp
      also have "\<dots> < int x * ?h"
        using lt hpos by simp
      finally show False
        using cross by simp
    qed
    have b: "?n2 \<le> ?h"
    proof (rule round_aspect_le)
      have "int x * ?h \<le> ?w * ?h"
        by (rule mult_right_mono [OF xw]) simp
      also have "\<dots> = ?h * ?w"
        by (rule mult.commute)
      finally show "of_int (int x) / ?aspect \<le> (of_int ?h :: rat)"
        by (simp only: rat_div_frac_le [OF wpos hpos])
      show "1 \<le> ?h" using hpos by simp
    qed
    from a b xw show ?thesis
      by (auto simp: img')
  qed
qed


text \<open>
  Claim C9. For every image the \<open>try\<close> block of \<open>thumbnail\<close> renders, the output is at most
  256 wide and 256 high, and for a source with positive width and height it is no larger
  than the source in either dimension. A source of mode \<open>RGBA\<close> or \<open>LA\<close> (an alpha channel),
  or of mode \<open>P\<close> with a \<open>transparency\<close> entry, is written as PNG in its own mode with its
  transparency; every other source is written as JPEG with quality 85 and \<open>optimize\<close>, in
  mode \<open>RGB\<close> or \<open>L\<close>, without transparency.
\<close>

theorem C9_thumbnail_size_and_encoding:
  assumes "thumbnail_body img = Inr out"
  shows "out_width out \<le> 256 \<and> out_height out \<le> 256
       \<and> (0 < img_width img \<and> 0 < img_height img \<longrightarrow>
             out_width out \<le> img_width img \<and> out_height out \<le> img_height img)
       \<and> (if (img_mode img = ''RGBA'' \<or> img_mode img = ''LA'')
              \<or> (img_mode img = ''P'' \<and> img_transparency img)
           then out_format out = ''PNG'' \<and> out_media_type out = ''image/png''
                \<and> out_mode out = img_mode img \<and> out_transparency out = img_transparency img
           else out_format out = ''JPEG'' \<and> out_media_type out = ''image/jpeg''
                \<and> out_quality out = Some 85 \<and> out_optimize out
                \<and> (out_mode out = ''RGB'' \<or> out_mode out = ''L'') \<and> \<not> out_transparency out)"
proof -
  from assms obtain img' where t: "pil_thumbnail (256, 256) img = Some img'"
    by (auto simp: thumbnail_body_def Let_def split: option.splits)
  from pil_thumbnail_bounds [OF t]
  have b: "img_mode img' = img_mode img" "img_transparency img' = img_transparency img"
    "img_width img' \<le> 256" "img_height img' \<le> 256"
    "0 < img_width img \<and> 0 < img_height img \<longrightarrow>
       img_width img' \<le> img_width img \<and> img_height img' \<le> img_height img"
    by simp_all
  show ?thesis
  proof (cases "(img_mode img = ''RGBA'' \<or> img_mode img = ''LA'')
                \<or> (img_mode img = ''P'' \<and> img_transparency img)")
    case True
    with assms t b(1,2) have "out = \<lparr>out_format = ''PNG'', out_width = img_width img',
           out_height = img_height img', out_mode = img_mode img',
           out_transparency = img_transparency img', out_quality = None,
           out_optimize = False, out_media_type = ''image/png''\<rparr>"
      by (simp add: thumbnail_body_def Let_def)
    with True b show ?thesis
      by simp
  next
    case False
    with assms t b(1,2) have "out = \<lparr>out_format = ''JPEG'', out_width = img_width img',
           out_height = img_height img',
           out_mode = (if \<not> (img_mode img' = ''RGB'' \<or> img_mode img' = ''L'') then ''RGB'' else img_mode img'),
           out_transparency = False, out_quality = Some 85,
           out_optimize = True, out_media_type = ''image/jpeg''\<rparr>"
      by (auto simp: thumbnail_body_def Let_def)
    with False b show ?thesis
      by auto
  qed
qed

theorem C9_witness:
  "thumbnail_body \<lparr>img_width = 1024, img_height = 768, img_mode = ''RGB'', img_transparency = False\<rparr>
     = Inr \<lparr>out_format = ''JPEG'', out_width = 256, out_height = 192, out_mode = ''RGB'',
            out_transparency = False, out_quality = Some 85, out_optimize = True,
            out_media_type = ''image/jpeg''\<rparr>
   \<and> thumbnail_body \<lparr>img_width = 300, img_height = 100, img_mode = ''P'', img_transparency = True\<rparr>
     = Inr \<lparr>out_format = ''PNG'', out_width = 256, out_height = 85, out_mode = ''P'',
            out_transparency = True, out_quality = None, out_optimize = False,
            out_media_type = ''image/png''\<rparr>
   \<and> (256::nat) \<le> 1024 \<and> (192::nat) \<le> 768 \<and> (256::nat) \<le> 256"
proof -
  let ?img = "\<lparr>img_width = 1024, img_height = 768, img_mode = ''RGB'', img_transparency = False\<rparr>"
  let ?out = "\<lparr>out_format = ''JPEG'', out_width = 256, out_height = 192, out_mode = ''RGB'',
            out_transparency = False, out_quality = Some 85, out_optimize = True,
            out_media_type = ''image/jpeg''\<rparr>"
  have a: "thumbnail_body ?img = Inr ?out"
    by code_simp
  have b: "thumbnail_body \<lparr>img_width = 300, img_height = 100, img_mode = ''P'', img_transparency = True\<rparr>
     = Inr \<lparr>out_format = ''PNG'', out_width = 256, out_height = 85, out_mode = ''P'',
            out_transparency = True, out_quality = None, out_optimize = False,
            out_media_type = ''image/png''\<rparr>"
    by code_simp
  from C9_thumbnail_size_and_encoding [OF a]
  have "out_width ?out \<le> 256 \<and> out_width ?out \<le> img_width ?img \<and> out_height ?out \<le> img_height ?img"
    by simp
  then have "(256::nat) \<le> 1024 \<and> (192::nat) \<le> 768 \<and> (256::nat) \<le> 256"
    by simp
  with a b show ?thesis
    by blast
qed

section \<open>Previews: lemmas and properties\<close>











text \<open>
  Claim C2. \<open>preview_dataset\<close> applies no hidden-file filter to either of its two scans: a
  dataset root holding the AppleDouble file \<open>._a.png\<close> and \<open>.cache/x.parquet\<close> gets an image
  preview and a tabular preview of these hidden paths, while \<open>dataset_tree\<close> on the same
  root lists nothing.
\<close>

theorem C2_preview_lists_hidden_files:
  "is_hidden_or_metadata_path [''._a.png'']
   \<and> is_hidden_or_metadata_path [''.cache'', ''x.parquet'']
   \<and> map_sum id (\<lambda>r. map im_path (pv_image_previews r))
        (preview_dataset preview_env hidden_files_world ''p'' ''d'' None) = Inr [''._a.png'']
   \<and> map_sum id (\<lambda>r. map pq_path (pv_parquet_previews r))
        (preview_dataset preview_env hidden_files_world ''p'' ''d'' None) = Inr [''.cache/x.parquet'']
   \<and> map_sum id tr_tree (dataset_tree hidden_files_world ''p'' ''d'') = Inr (Directory [] [] [])"
  by code_simp

end
